theory Spec2Isabelle
  imports Complex_Main "HOL-Library.Word"
begin

section \<open>JavaScript values and the RGBA buffer\<close>

text \<open>
  The numbers the blur routines compute with are sums of at most eight bytes and the
  quotient of such a sum by a count of at most eight. They are modelled as rationals,
  together with the non-numeric results JavaScript produces: \<open>NaN\<close>, the two
  infinities, and \<open>undefined\<close> (the result of reading a typed array outside its
  bounds). The sums are computed exactly by the double arithmetic of JavaScript. A quotient
  \<open>a / n\<close> that is not a multiple of \<open>1 / 2\<close> is rounded by it, but lies at
  least \<open>1 / 16\<close> from the next multiple of \<open>1 / 2\<close>, so the byte stored for it
  is the one stored for the exact quotient.
\<close>

datatype jsval = Num rat | NaN | PosInf | NegInf | Undefined

type_synonym byte = "8 word"

text \<open>\<open>a + b\<close> on numbers; \<open>undefined\<close> converts to \<open>NaN\<close>.\<close>

fun js_add :: "jsval \<Rightarrow> jsval \<Rightarrow> jsval" where
  "js_add (Num a) (Num b) = Num (a + b)"
| "js_add Undefined _ = NaN"
| "js_add _ Undefined = NaN"
| "js_add NaN _ = NaN"
| "js_add _ NaN = NaN"
| "js_add PosInf NegInf = NaN"
| "js_add NegInf PosInf = NaN"
| "js_add PosInf _ = PosInf"
| "js_add _ PosInf = PosInf"
| "js_add NegInf _ = NegInf"
| "js_add _ NegInf = NegInf"

text \<open>\<open>t / n\<close> where \<open>n\<close> is a counter (a non-negative integer). Division by zero
  does not raise in JavaScript: it yields \<open>NaN\<close> or an infinity.\<close>

fun js_div :: "jsval \<Rightarrow> nat \<Rightarrow> jsval" where
  "js_div (Num a) n =
     (if n = 0 then (if a = 0 then NaN else if 0 < a then PosInf else NegInf)
      else Num (a / of_nat n))"
| "js_div NaN n = NaN"
| "js_div Undefined n = NaN"
| "js_div PosInf n = PosInf"
| "js_div NegInf n = NegInf"

text \<open>The conversion applied by a \<open>Uint8ClampedArray\<close> on every store: \<open>NaN\<close>
  becomes 0, the value is clamped to 0..255 and rounded to the nearest integer, ties to
  the even one.\<close>

definition round_half_even :: "rat \<Rightarrow> int" where
  "round_half_even r =
     (let f = \<lfloor>r\<rfloor> in
      if of_int f + 1 / 2 < r then f + 1
      else if r < of_int f + 1 / 2 then f
      else if even f then f else f + 1)"

fun toUint8Clamp :: "jsval \<Rightarrow> byte" where
  "toUint8Clamp (Num r) =
     (if r \<le> 0 then 0 else if 255 \<le> r then 255 else word_of_int (round_half_even r))"
| "toUint8Clamp NaN = 0"
| "toUint8Clamp Undefined = 0"
| "toUint8Clamp PosInf = 255"
| "toUint8Clamp NegInf = 0"

text \<open>\<open>data[i]\<close> on the pixel buffer: a read outside the buffer yields
  \<open>undefined\<close>, a write outside the buffer is ignored.\<close>

definition data_get :: "byte list \<Rightarrow> int \<Rightarrow> jsval" where
  "data_get d i =
     (if 0 \<le> i \<and> i < int (length d) then Num (of_nat (unat (d ! nat i))) else Undefined)"

definition data_set :: "byte list \<Rightarrow> int \<Rightarrow> jsval \<Rightarrow> byte list" where
  "data_set d i v =
     (if 0 \<le> i \<and> i < int (length d) then d[nat i := toUint8Clamp v] else d)"

text \<open>\<open>a[k]\<close> on an ordinary array: \<open>undefined\<close> past its end.\<close>

definition arr_get :: "jsval list \<Rightarrow> nat \<Rightarrow> jsval" where
  "arr_get a k = (if k < length a then a ! k else Undefined)"

text \<open>\<open>createImageData(w, h)\<close>: a fresh buffer of transparent black pixels.\<close>

definition createImageData_data :: "nat \<Rightarrow> nat \<Rightarrow> byte list" where
  "createImageData_data w h = replicate (4 * w * h) 0"


section \<open>Version 1: CanvasImageData\<close>

record image_data =
  width :: nat
  height :: nat
  data :: "byte list"

datatype error = CoordinateError

definition convertCoordsToIndex :: "image_data \<Rightarrow> int \<Rightarrow> int \<Rightarrow> error + int" where
  "convertCoordsToIndex d x y =
     (if x < 0 \<or> x > int (width d) \<or> y < 0 \<or> y > int (height d)
      then Inl CoordinateError
      else Inr ((y * int (width d) * 4) + (x * 4)))"

text \<open>The result of \<open>getPixel\<close>: the sentinel \<open>false\<close>, or a four-element array.\<close>

datatype pixel_result = PFalse | Pixel "jsval list"

text \<open>\<open>try { ... } catch (e) { return false; }\<close>: the handler catches every
  exception of the body.\<close>

definition getPixel :: "image_data \<Rightarrow> int \<Rightarrow> int \<Rightarrow> error + pixel_result" where
  "getPixel d x y =
     (case convertCoordsToIndex d x y of
        Inr pos \<Rightarrow>
          Inr (Pixel [data_get (data d) pos, data_get (data d) (pos + 1),
                      data_get (data d) (pos + 2), data_get (data d) (pos + 3)])
      | Inl e \<Rightarrow> Inr PFalse)"

text \<open>The result of \<open>setPixel\<close>: \<open>false\<close> from the handler, otherwise no value
  (\<open>undefined\<close>) and the updated image.\<close>

datatype set_result = SFalse | SDone

definition setPixel ::
  "image_data \<Rightarrow> int \<Rightarrow> int \<Rightarrow> jsval list \<Rightarrow> error + (set_result \<times> image_data)" where
  "setPixel d x y pixelValues =
     (case convertCoordsToIndex d x y of
        Inl e \<Rightarrow> Inr (SFalse, d)
      | Inr pos \<Rightarrow>
          Inr (SDone,
            d\<lparr>data :=
                data_set (data_set (data_set (data_set (data d)
                  pos (arr_get pixelValues 0))
                  (pos + 1) (arr_get pixelValues 1))
                  (pos + 2) (arr_get pixelValues 2))
                  (pos + 3) (arr_get pixelValues 3)\<rparr>))"

text \<open>An image as the constructor leaves it: the buffer has four bytes per pixel.\<close>

definition wf_image :: "image_data \<Rightarrow> bool" where
  "wf_image d = (0 < width d \<and> 0 < height d \<and> length (data d) = 4 * width d * height d)"



section \<open>Loops whose body may raise\<close>

text \<open>A \<open>for\<close> loop over the values \<open>xs\<close>, threading the state; an exception
  raised by the body ends the loop and propagates.\<close>

primrec for_each :: "('s \<Rightarrow> 'a \<Rightarrow> 'e + 's) \<Rightarrow> 'a list \<Rightarrow> 's \<Rightarrow> 'e + 's" where
  "for_each f [] s = Inr s"
| "for_each f (x # xs) s = (case f s x of Inl e \<Rightarrow> Inl e | Inr s' \<Rightarrow> for_each f xs s')"


section \<open>Version 1: CanvasImage\<close>

text \<open>The constructor sets the \<open>CanvasImage\<close>'s own \<open>width\<close> and \<open>height\<close>
  (here \<open>ci_width\<close>, \<open>ci_height\<close>) and those of its \<open>CanvasImageData\<close> from the
  same image. \<open>canvas\<close> is the bitmap the canvas element shows; it has the image's
  size, so \<open>putImageData(imageData, 0, 0)\<close> replaces it.\<close>

record canvas_image =
  ci_width :: nat
  ci_height :: nat
  canvasImageData :: image_data
  canvas :: "byte list"

definition wf_canvas_image :: "canvas_image \<Rightarrow> bool" where
  "wf_canvas_image c =
     (ci_width c = width (canvasImageData c) \<and> ci_height c = height (canvasImageData c)
      \<and> wf_image (canvasImageData c))"

definition redraw :: "canvas_image \<Rightarrow> canvas_image" where
  "redraw c = c\<lparr>canvas := data (canvasImageData c)\<rparr>"

definition createImageData :: "nat \<Rightarrow> nat \<Rightarrow> image_data" where
  "createImageData w h = \<lparr>width = w, height = h, data = createImageData_data w h\<rparr>"

subsection \<open>flipHorizontal\<close>

definition flip_pixel :: "image_data \<Rightarrow> nat \<Rightarrow> nat \<Rightarrow> image_data \<Rightarrow> nat \<Rightarrow> error + image_data"
  where
  "flip_pixel old w y newImage x =
     (let pos = - (int x - int w) - 1 in
      case getPixel old (int x) (int y) of
        Inl e \<Rightarrow> Inl e
      | Inr PFalse \<Rightarrow> Inr newImage
      | Inr (Pixel pixel) \<Rightarrow>
          (case setPixel newImage pos (int y) pixel of
             Inl e \<Rightarrow> Inl e
           | Inr (r, newImage') \<Rightarrow> Inr newImage'))"

definition flipHorizontal :: "canvas_image \<Rightarrow> error + canvas_image" where
  "flipHorizontal c =
     (case for_each
             (\<lambda>newImage y.
                for_each (flip_pixel (canvasImageData c) (ci_width c) y) [0..<ci_width c] newImage)
             [0..<ci_height c]
             (createImageData (ci_width c) (ci_height c)) of
        Inl e \<Rightarrow> Inl e
      | Inr newImage \<Rightarrow> Inr (redraw (c\<lparr>canvasImageData := newImage\<rparr>)))"

subsection \<open>blur\<close>

text \<open>The four channel totals and \<open>numberOfPixels\<close>.\<close>

type_synonym totals = "jsval \<times> jsval \<times> jsval \<times> jsval \<times> nat"

definition no_totals :: totals where
  "no_totals = (Num 0, Num 0, Num 0, Num 0, 0)"

definition add_pixel :: "totals \<Rightarrow> jsval list \<Rightarrow> totals" where
  "add_pixel t pixel =
     (case t of (totalOpacity, totalRed, totalGreen, totalBlue, numberOfPixels) \<Rightarrow>
        (js_add totalOpacity (arr_get pixel 0), js_add totalRed (arr_get pixel 1),
         js_add totalGreen (arr_get pixel 2), js_add totalBlue (arr_get pixel 3),
         numberOfPixels + 1))"

definition numberOfPixels_of :: "totals \<Rightarrow> nat" where
  "numberOfPixels_of t = (case t of (totalOpacity, totalRed, totalGreen, totalBlue, n) \<Rightarrow> n)"

definition pixelValue :: "totals \<Rightarrow> jsval list" where
  "pixelValue t =
     (case t of (totalOpacity, totalRed, totalGreen, totalBlue, numberOfPixels) \<Rightarrow>
        [js_div totalOpacity numberOfPixels, js_div totalRed numberOfPixels,
         js_div totalGreen numberOfPixels, js_div totalBlue numberOfPixels])"

definition surroundingPixels_v1 :: "int \<Rightarrow> int \<Rightarrow> (int \<times> int) list" where
  "surroundingPixels_v1 x y =
     [(x - 1, y - 1), (x, y - 1), (x + 1, y - 1),
      (x - 1, y), (x * 1, y),
      (x - 1, y + 1), (x, y + 1), (x + 1, y + 1)]"

definition sample_v1 :: "image_data \<Rightarrow> totals \<Rightarrow> int \<times> int \<Rightarrow> error + totals" where
  "sample_v1 src t p =
     (case getPixel src (fst p) (snd p) of
        Inl e \<Rightarrow> Inl e
      | Inr PFalse \<Rightarrow> Inr t
      | Inr (Pixel pixel) \<Rightarrow> Inr (add_pixel t pixel))"

definition totals_v1 :: "image_data \<Rightarrow> int \<Rightarrow> int \<Rightarrow> error + totals" where
  "totals_v1 src x y = for_each (sample_v1 src) (surroundingPixels_v1 x y) no_totals"

text \<open>
  \<open>blur\<close> creates \<open>newImage\<close> once, before the passes, and at the end of each pass
  makes it the current image. From the second pass on the image read and the image written
  are therefore the same object. The store holds the two objects; \<open>aliased\<close> says
  which of them the current image is.
\<close>

record 'a blur_store =
  original :: 'a
  newImage :: 'a
  aliased :: bool

definition current :: "'a blur_store \<Rightarrow> 'a" where
  "current st = (if aliased st then newImage st else original st)"

definition blur_pixel_v1 ::
  "nat \<Rightarrow> image_data blur_store \<Rightarrow> nat \<Rightarrow> error + image_data blur_store" where
  "blur_pixel_v1 y st x =
     (case totals_v1 (current st) (int x) (int y) of
        Inl e \<Rightarrow> Inl e
      | Inr t \<Rightarrow>
          (case setPixel (newImage st) (int x) (int y) (pixelValue t) of
             Inl e \<Rightarrow> Inl e
           | Inr (r, newImage') \<Rightarrow> Inr (st\<lparr>newImage := newImage'\<rparr>)))"

definition blur_pass_v1 ::
  "nat \<Rightarrow> nat \<Rightarrow> image_data blur_store \<Rightarrow> error + image_data blur_store" where
  "blur_pass_v1 w h st =
     (case for_each (\<lambda>st y. for_each (blur_pixel_v1 y) [0..<w] st) [0..<h] st of
        Inl e \<Rightarrow> Inl e
      | Inr st' \<Rightarrow> Inr (st'\<lparr>aliased := True\<rparr>))"

definition blur_v1 :: "canvas_image \<Rightarrow> int \<Rightarrow> error + canvas_image" where
  "blur_v1 c passes =
     (case for_each (\<lambda>st i. blur_pass_v1 (ci_width c) (ci_height c) st) [0..<nat passes]
             \<lparr>original = canvasImageData c,
              newImage = createImageData (ci_width c) (ci_height c),
              aliased = False\<rparr> of
        Inl e \<Rightarrow> Inl e
      | Inr st \<Rightarrow> Inr (redraw (c\<lparr>canvasImageData := current st\<rparr>)))"


section \<open>Version 2\<close>

text \<open>Version 2 works on the flat buffer of \<open>this.imageData\<close> directly; \<open>v2_canvas\<close>
  is the bitmap of the canvas element. The local variable \<open>width\<close> of \<open>blur\<close>
  (four times the image's width) is \<open>width4\<close> here.\<close>

record canvas_image_v2 =
  v2_width :: nat
  v2_height :: nat
  imageData :: "byte list"
  v2_canvas :: "byte list"

definition wf_canvas_image_v2 :: "canvas_image_v2 \<Rightarrow> bool" where
  "wf_canvas_image_v2 c =
     (0 < v2_width c \<and> 0 < v2_height c \<and> length (imageData c) = 4 * v2_width c * v2_height c)"

definition redraw_v2 :: "canvas_image_v2 \<Rightarrow> canvas_image_v2" where
  "redraw_v2 c = c\<lparr>v2_canvas := imageData c\<rparr>"

definition surroundingPixels_v2 :: "int \<Rightarrow> int \<Rightarrow> int list" where
  "surroundingPixels_v2 pos width4 =
     [pos - width4 - 4, pos - width4, pos - width4 + 4,
      pos - 4, pos + 4,
      pos + width4 - 4, pos + width4, pos + width4 + 4]"

definition sample_v2 :: "byte list \<Rightarrow> int \<Rightarrow> totals \<Rightarrow> int \<Rightarrow> totals" where
  "sample_v2 d imageDataLength t sp =
     (if sp \<ge> 0 \<and> sp \<le> imageDataLength - 3
      then add_pixel t [data_get d sp, data_get d (sp + 1), data_get d (sp + 2),
                        data_get d (sp + 3)]
      else t)"

definition totals_v2 :: "byte list \<Rightarrow> int \<Rightarrow> int \<Rightarrow> int \<Rightarrow> totals" where
  "totals_v2 d imageDataLength width4 pos =
     foldl (sample_v2 d imageDataLength) no_totals (surroundingPixels_v2 pos width4)"

definition blur_pixel_v2 ::
  "int \<Rightarrow> int \<Rightarrow> (byte list) blur_store \<Rightarrow> int \<Rightarrow> (byte list) blur_store" where
  "blur_pixel_v2 imageDataLength width4 st pos =
     (let pv = pixelValue (totals_v2 (current st) imageDataLength width4 pos) in
      st\<lparr>newImage :=
           data_set (data_set (data_set (data_set (newImage st)
             pos (arr_get pv 0))
             (pos + 1) (arr_get pv 1))
             (pos + 2) (arr_get pv 2))
             (pos + 3) (arr_get pv 3)\<rparr>)"

text \<open>The values of \<open>pos\<close> in \<open>for (pos = 0; pos < imageDataLength; pos += 4)\<close>.\<close>

definition positions_v2 :: "nat \<Rightarrow> int list" where
  "positions_v2 imageDataLength = map (\<lambda>i. 4 * int i) [0..<(imageDataLength + 3) div 4]"

definition blur_pass_v2 :: "nat \<Rightarrow> int \<Rightarrow> (byte list) blur_store \<Rightarrow> (byte list) blur_store"
  where
  "blur_pass_v2 imageDataLength width4 st =
     (foldl (blur_pixel_v2 (int imageDataLength) width4) st (positions_v2 imageDataLength))
       \<lparr>aliased := True\<rparr>"

definition blur_v2 :: "canvas_image_v2 \<Rightarrow> int \<Rightarrow> canvas_image_v2" where
  "blur_v2 c passes =
     (let imageDataLength = length (imageData c);
          width4 = 4 * int (v2_width c);
          st = foldl (\<lambda>st i. blur_pass_v2 imageDataLength width4 st)
                 \<lparr>original = imageData c,
                  newImage = createImageData_data (v2_width c) (v2_height c),
                  aliased = False\<rparr>
                 [0..<nat passes]
      in redraw_v2 (c\<lparr>imageData := current st\<rparr>))"


section \<open>Versions 3 and 5: blur by compositing\<close>

text \<open>
  The 2D context: its \<open>globalAlpha\<close>, the rest of its drawing state (\<open>config\<close>) and
  the bitmap it draws on. \<open>drawImage\<close> belongs to the browser; it is a parameter here.
  It reads the context, yields the new bitmap, and may raise.
\<close>

record ('b, 'c) context2d =
  globalAlpha :: rat
  config :: 'c
  bitmap :: 'b

definition draw_step ::
  "(('b, 'c) context2d \<Rightarrow> int \<Rightarrow> int \<Rightarrow> 'e + 'b) \<Rightarrow> int \<Rightarrow> ('b, 'c) context2d \<Rightarrow> int
     \<Rightarrow> 'e + ('b, 'c) context2d" where
  "draw_step drawImage y ctx x =
     (case drawImage ctx x y of Inl e \<Rightarrow> Inl e | Inr b \<Rightarrow> Inr (ctx\<lparr>bitmap := b\<rparr>))"

definition blur_v3 ::
  "(('b, 'c) context2d \<Rightarrow> int \<Rightarrow> int \<Rightarrow> 'e + 'b) \<Rightarrow> ('b, 'c) context2d \<Rightarrow> int
     \<Rightarrow> 'e + ('b, 'c) context2d" where
  "blur_v3 drawImage ctx passes =
     (case for_each
             (\<lambda>ctx i. for_each
                (\<lambda>ctx y. for_each (draw_step drawImage y) [-1..1] ctx) [-1..1] ctx)
             [1..passes]
             (ctx\<lparr>globalAlpha := 0.125\<rparr>) of
        Inl e \<Rightarrow> Inl e
      | Inr ctx' \<Rightarrow> Inr (ctx'\<lparr>globalAlpha := 1.0\<rparr>))"

definition blur_v5 ::
  "(('b, 'c) context2d \<Rightarrow> int \<Rightarrow> int \<Rightarrow> 'e + 'b) \<Rightarrow> ('b, 'c) context2d \<Rightarrow> int
     \<Rightarrow> 'e + ('b, 'c) context2d" where
  "blur_v5 drawImage ctx strength =
     (case for_each
             (\<lambda>ctx y. for_each (draw_step drawImage y) [- strength..strength] ctx)
             [- strength..strength]
             (ctx\<lparr>globalAlpha := 0.5\<rparr>) of
        Inl e \<Rightarrow> Inl e
      | Inr ctx' \<Rightarrow> Inr (ctx'\<lparr>globalAlpha := 1.0\<rparr>))"



section \<open>Auxiliary definitions for the statements\<close>

text \<open>The coordinates that pass the check of \<open>convertCoordsToIndex\<close>.\<close>

definition accepted_v1 :: "image_data \<Rightarrow> int \<times> int \<Rightarrow> bool" where
  "accepted_v1 d p = (0 \<le> fst p \<and> fst p \<le> int (width d) \<and> 0 \<le> snd p \<and> snd p \<le> int (height d))"

text \<open>The index of the first byte of the pixel at \<open>(x, y)\<close> in a buffer of
  \<open>w\<close> pixels per row, and the four consecutive stores of a pixel.\<close>

definition pixel_index :: "nat \<Rightarrow> nat \<Rightarrow> nat \<Rightarrow> nat" where
  "pixel_index w x y = 4 * (y * w + x)"

definition write4 :: "byte list \<Rightarrow> nat \<Rightarrow> (nat \<Rightarrow> byte) \<Rightarrow> byte list" where
  "write4 d i b = d[i := b 0, i + 1 := b 1, i + 2 := b 2, i + 3 := b 3]"

text \<open>Version 2: the neighbour positions that pass the bounds check of the sampling
  loop, and the average of channel \<open>k\<close> over a list of positions.\<close>

definition sampled_v2 :: "int \<Rightarrow> int \<Rightarrow> int \<Rightarrow> int list" where
  "sampled_v2 imageDataLength width4 pos =
     filter (\<lambda>sp. sp \<ge> 0 \<and> sp \<le> imageDataLength - 3) (surroundingPixels_v2 pos width4)"

definition channel_average :: "byte list \<Rightarrow> int list \<Rightarrow> nat \<Rightarrow> rat" where
  "channel_average d sps k =
     (\<Sum>sp\<leftarrow>sps. of_nat (unat (d ! nat (sp + int k)))) / of_nat (length sps)"

text \<open>The box blur in the words of the specification: the pixels of the 3x3 neighbourhood
  centred at \<open>(x, y)\<close> that lie within the image bounds (the pixel itself included), and
  the average of channel \<open>k\<close> over them.\<close>

definition neighbourhood :: "nat \<Rightarrow> nat \<Rightarrow> nat \<Rightarrow> nat \<Rightarrow> (nat \<times> nat) list" where
  "neighbourhood w h x y =
     [(nat x', nat y').
        y' \<leftarrow> [int y - 1, int y, int y + 1], x' \<leftarrow> [int x - 1, int x, int x + 1],
        0 \<le> x' \<and> x' < int w \<and> 0 \<le> y' \<and> y' < int h]"

definition box_average :: "nat \<Rightarrow> nat \<Rightarrow> byte list \<Rightarrow> nat \<Rightarrow> nat \<Rightarrow> nat \<Rightarrow> rat" where
  "box_average w h d x y k =
     (\<Sum>p\<leftarrow>neighbourhood w h x y. of_nat (unat (d ! (pixel_index w (fst p) (snd p) + k))))
       / of_nat (length (neighbourhood w h x y))"

text \<open>The same without the pixel itself: the pixels of the 3x3 neighbourhood centred at
  \<open>(x, y)\<close>, other than \<open>(x, y)\<close>, that lie within the image bounds, and the
  average of channel \<open>k\<close> over them.\<close>

definition neighbours :: "nat \<Rightarrow> nat \<Rightarrow> nat \<Rightarrow> nat \<Rightarrow> (nat \<times> nat) list" where
  "neighbours w h x y = filter (\<lambda>p. p \<noteq> (x, y)) (neighbourhood w h x y)"

definition neighbour_average :: "nat \<Rightarrow> nat \<Rightarrow> byte list \<Rightarrow> nat \<Rightarrow> nat \<Rightarrow> nat \<Rightarrow> rat" where
  "neighbour_average w h d x y k =
     (\<Sum>p\<leftarrow>neighbours w h x y. of_nat (unat (d ! (pixel_index w (fst p) (snd p) + k))))
       / of_nat (length (neighbours w h x y))"

text \<open>A \<open>drawImage\<close> for running the compositing blurs: it never raises and counts
  its calls in the bitmap.\<close>

definition count_draws :: "(nat, string) context2d \<Rightarrow> int \<Rightarrow> int \<Rightarrow> error + nat" where
  "count_draws c x y = Inr (bitmap c + 1)"


section \<open>Properties of the coordinate mapping and the pixel accessors\<close>

text \<open>
  Claim C5. For every in-range coordinate pair \<open>(x, y)\<close>,
  \<open>convertCoordsToIndex(x, y)\<close> returns \<open>(y * width + x) * 4\<close>, the row-major index
  of the first of the four bytes of the pixel at \<open>(x, y)\<close>.
\<close>

theorem convertCoordsToIndex_in_range:
  assumes "0 \<le> x" and "x < int (width d)" and "0 \<le> y" and "y < int (height d)"
  shows "convertCoordsToIndex d x y = Inr ((y * int (width d) + x) * 4)"
  using assms by (simp add: convertCoordsToIndex_def algebra_simps)

theorem convertCoordsToIndex_in_range_witness:
  "convertCoordsToIndex \<lparr>width = 100, height = 100, data = replicate 40000 0\<rparr> 34 56
     = Inr 22536"
  using convertCoordsToIndex_in_range
    [of 34 "\<lparr>width = 100, height = 100, data = replicate 40000 0\<rparr>" 56]
  by simp

section \<open>Rules for loops\<close>

lemma for_each_append:
  "for_each f (xs @ ys) s = (case for_each f xs s of Inl e \<Rightarrow> Inl e | Inr s' \<Rightarrow> for_each f ys s')"
  by (induction xs arbitrary: s) (auto split: sum.splits)

lemma for_each_total:
  assumes "\<And>s x. \<exists>s'. f s x = Inr s'"
  shows "\<exists>s'. for_each f xs s = Inr s'"
proof (induction xs arbitrary: s)
  case Nil
  show ?case by simp
next
  case (Cons x xs)
  obtain s1 where "f s x = Inr s1" using assms by blast
  with Cons show ?case by simp
qed

lemma for_each_preserves:
  assumes "\<And>s x s'. f s x = Inr s' \<Longrightarrow> P s \<Longrightarrow> P s'"
    and "for_each f xs s = Inr s'" and "P s"
  shows "P s'"
  using assms(2,3)
proof (induction xs arbitrary: s)
  case Nil
  then show ?case by simp
next
  case (Cons x xs)
  then show ?case using assms(1) by (auto split: sum.splits)
qed

lemma for_each_upt_rule:
  assumes "P 0 s"
    and "\<And>i s. i < n \<Longrightarrow> P i s \<Longrightarrow> \<exists>s'. f s i = Inr s' \<and> P (Suc i) s'"
  shows "\<exists>s'. for_each f [0..<n] s = Inr s' \<and> P n s'"
  using assms(2)
proof (induction n)
  case 0
  then show ?case using assms(1) by simp
next
  case (Suc n)
  then obtain s1 where s1: "for_each f [0..<n] s = Inr s1" "P n s1"
    by (metis less_Suc_eq)
  from Suc.prems[of n s1] s1 obtain s2 where "f s1 n = Inr s2" "P (Suc n) s2" by auto
  with s1 show ?case by (simp add: for_each_append)
qed

section \<open>No exception leaves the accessors\<close>

lemma getPixel_never_raises: "\<exists>r. getPixel d x y = Inr r"
  by (simp add: getPixel_def split: sum.splits)

lemma setPixel_never_raises: "\<exists>r. setPixel d x y pv = Inr r"
  by (simp add: setPixel_def split: sum.splits)

lemma flip_pixel_never_raises: "\<exists>r. flip_pixel old w y new x = Inr r"
  using getPixel_never_raises[of old "int x" "int y"]
    setPixel_never_raises[of new "- (int x - int w) - 1" "int y"]
  apply (auto simp: flip_pixel_def Let_def split: sum.splits pixel_result.splits)
  by (metis Inl_Inr_False)

lemma sample_v1_never_raises: "\<exists>r. sample_v1 src t p = Inr r"
proof -
  obtain r where "getPixel src (fst p) (snd p) = Inr r"
    using getPixel_never_raises by blast
  then show ?thesis
    by (cases r) (simp_all add: sample_v1_def del: split_paired_Ex)
qed

lemma blur_pixel_v1_never_raises: "\<exists>r. blur_pixel_v1 y st x = Inr r"
proof -
  obtain t where t: "totals_v1 (current st) (int x) (int y) = Inr t"
    unfolding totals_v1_def using for_each_total[of "sample_v1 (current st)"] sample_v1_never_raises by blast
  obtain r n where "setPixel (newImage st) (int x) (int y) (pixelValue t) = Inr (r, n)"
    using setPixel_never_raises by (metis surj_pair)
  with t show ?thesis by (simp add: blur_pixel_v1_def)
qed

lemma blur_pass_v1_never_raises: "\<exists>r. blur_pass_v1 w h st = Inr r"
proof -
  have "\<And>st y. \<exists>r. for_each (blur_pixel_v1 y) [0..<w] st = Inr r"
    by (rule for_each_total) (rule blur_pixel_v1_never_raises)
  then obtain r where "for_each (\<lambda>st y. for_each (blur_pixel_v1 y) [0..<w] st) [0..<h] st = Inr r"
    using for_each_total[of "\<lambda>st y. for_each (blur_pixel_v1 y) [0..<w] st" "[0..<h]" st] by blast
  then show ?thesis by (simp add: blur_pass_v1_def)
qed

lemma blur_v1_never_raises: "\<exists>r. blur_v1 c passes = Inr r"
proof -
  obtain r where "for_each (\<lambda>st i. blur_pass_v1 (ci_width c) (ci_height c) st) [0..<nat passes]
             \<lparr>original = canvasImageData c,
              newImage = createImageData (ci_width c) (ci_height c),
              aliased = False\<rparr> = Inr r"
    using for_each_total[of "\<lambda>st i. blur_pass_v1 (ci_width c) (ci_height c) st"] blur_pass_v1_never_raises by blast
  then show ?thesis by (simp add: blur_v1_def)
qed

lemma flipHorizontal_never_raises: "\<exists>r. flipHorizontal c = Inr r"
proof -
  have "\<And>n y. \<exists>r. for_each (flip_pixel (canvasImageData c) (ci_width c) y) [0..<ci_width c] n = Inr r"
    by (rule for_each_total) (rule flip_pixel_never_raises)
  then obtain r where "for_each
             (\<lambda>newImage y.
                for_each (flip_pixel (canvasImageData c) (ci_width c) y) [0..<ci_width c] newImage)
             [0..<ci_height c]
             (createImageData (ci_width c) (ci_height c)) = Inr r"
    using for_each_total[of "\<lambda>newImage y.
                for_each (flip_pixel (canvasImageData c) (ci_width c) y) [0..<ci_width c] newImage"] by blast
  then show ?thesis by (simp add: flipHorizontal_def)
qed

text \<open>
  Claim C6. No call to \<open>getPixel\<close> or \<open>setPixel\<close> propagates an exception to
  its caller: for every coordinate pair both return a value, and when
  \<open>convertCoordsToIndex\<close> throws \<open>CoordinateError\<close> the handler returns
  \<open>false\<close> (and \<open>setPixel\<close> leaves the image as it was). Hence
  \<open>flipHorizontal\<close> and \<open>blur\<close> return normally too.
\<close>

theorem accessors_never_throw:
  "(\<exists>r. getPixel d x y = Inr r) \<and> (\<exists>r. setPixel d x y pv = Inr r)
   \<and> (convertCoordsToIndex d x y = Inl CoordinateError \<longrightarrow>
        getPixel d x y = Inr PFalse \<and> setPixel d x y pv = Inr (SFalse, d))
   \<and> (\<exists>c'. flipHorizontal c = Inr c') \<and> (\<exists>c'. blur_v1 c passes = Inr c')"
  using getPixel_never_raises setPixel_never_raises flipHorizontal_never_raises blur_v1_never_raises
  by (simp add: getPixel_def setPixel_def)

theorem accessors_never_throw_witness:
  "convertCoordsToIndex \<lparr>width = 1, height = 1, data = [10, 20, 30, 40]\<rparr> 5 0 = Inl CoordinateError
   \<and> getPixel \<lparr>width = 1, height = 1, data = [10, 20, 30, 40]\<rparr> 5 0 = Inr PFalse
   \<and> setPixel \<lparr>width = 1, height = 1, data = [10, 20, 30, 40]\<rparr> 5 0 [Num 1, Num 2, Num 3, Num 4]
       = Inr (SFalse, \<lparr>width = 1, height = 1, data = [10, 20, 30, 40]\<rparr>)"
proof -
  have h: "convertCoordsToIndex \<lparr>width = 1, height = 1, data = [10, 20, 30, 40]\<rparr> 5 0 = Inl CoordinateError"
    by (simp add: convertCoordsToIndex_def)
  from accessors_never_throw[of "\<lparr>width = 1, height = 1, data = [10, 20, 30, 40]\<rparr>" 5 0 "[Num 1, Num 2, Num 3, Num 4]"] h
  show ?thesis by blast
qed

section \<open>The number of sampled pixels\<close>

lemma numberOfPixels_of_add_pixel [simp]:
  "numberOfPixels_of (add_pixel t pixel) = numberOfPixels_of t + 1"
  by (cases t) (simp add: numberOfPixels_of_def add_pixel_def)

lemma sample_v1_count:
  "\<exists>t'. sample_v1 src t p = Inr t' \<and>
        numberOfPixels_of t' = numberOfPixels_of t + (if accepted_v1 src p then 1 else 0)"
  by (simp add: sample_v1_def getPixel_def convertCoordsToIndex_def accepted_v1_def
        del: split_paired_Ex)

lemma for_each_sample_v1_count:
  "\<exists>t'. for_each (sample_v1 src) ps t = Inr t' \<and>
        numberOfPixels_of t' = numberOfPixels_of t + length (filter (accepted_v1 src) ps)"
proof (induction ps arbitrary: t)
  case Nil
  show ?case by simp
next
  case (Cons p ps)
  obtain t1 where t1: "sample_v1 src t p = Inr t1"
    "numberOfPixels_of t1 = numberOfPixels_of t + (if accepted_v1 src p then 1 else 0)"
    using sample_v1_count by blast
  from Cons[of t1] t1 show ?case by auto
qed

lemma totals_v1_count:
  assumes "x < width src" and "y < height src"
  shows "\<exists>t. totals_v1 src (int x) (int y) = Inr t \<and> 1 \<le> numberOfPixels_of t"
proof -
  obtain t where t: "totals_v1 src (int x) (int y) = Inr t"
    "numberOfPixels_of t = numberOfPixels_of no_totals
        + length (filter (accepted_v1 src) (surroundingPixels_v1 (int x) (int y)))"
    unfolding totals_v1_def using for_each_sample_v1_count by blast
  have "accepted_v1 src (int x * 1, int y)"
    using assms by (simp add: accepted_v1_def)
  then have "1 \<le> length (filter (accepted_v1 src) (surroundingPixels_v1 (int x) (int y)))"
    by (simp add: surroundingPixels_v1_def)
  with t show ?thesis by simp
qed

lemma foldl_sample_v2_count:
  "numberOfPixels_of (foldl (sample_v2 d len) t sps) =
     numberOfPixels_of t + length (filter (\<lambda>sp. 0 \<le> sp \<and> sp \<le> len - 3) sps)"
  by (induction sps arbitrary: t) (simp_all add: sample_v2_def)

lemma filter_length_pos: "x \<in> set xs \<Longrightarrow> P x \<Longrightarrow> 1 \<le> length (filter P xs)"
  by (induction xs) auto

lemma totals_v2_count:
  assumes "0 < w" and "0 < h" and "len = 4 * w * h" and "pos \<in> set (positions_v2 len)"
  shows "1 \<le> numberOfPixels_of (totals_v2 d (int len) (4 * int w) pos)"
proof -
  let ?P = "\<lambda>sp. 0 \<le> sp \<and> sp \<le> int len - 3"
  let ?sps = "surroundingPixels_v2 pos (4 * int w)"
  define n where "n = w * h"
  have n: "len = 4 * n" using assms(3) by (simp add: n_def)
  from assms(4) obtain i where i: "pos = 4 * int i" "i < n"
    unfolding n by (auto simp: positions_v2_def)
  have len: "int len = 4 * int n" using n by simp
  have "\<exists>sp \<in> set ?sps. ?P sp"
  proof (cases "i = 0")
    case False
    then have "?P (pos - 4)" using i len by simp
    moreover have "pos - 4 \<in> set ?sps" by (simp add: surroundingPixels_v2_def)
    ultimately show ?thesis by blast
  next
    case True
    show ?thesis
    proof (cases "n = 1")
      case True
      then have "w = 1" by (simp add: n_def)
      then have "pos - 4 * int w + 4 = 0" using i \<open>i = 0\<close> by simp
      moreover have "?P 0" using len True by simp
      moreover have "pos - 4 * int w + 4 \<in> set ?sps" by (simp add: surroundingPixels_v2_def)
      ultimately show ?thesis by metis
    next
      case False
      then have "2 \<le> n" using i by simp
      then have "?P (pos + 4)" using i \<open>i = 0\<close> len by simp
      moreover have "pos + 4 \<in> set ?sps" by (simp add: surroundingPixels_v2_def)
      ultimately show ?thesis by blast
    qed
  qed
  then have "1 \<le> length (filter ?P ?sps)" using filter_length_pos[of _ ?sps ?P] by blast
  then show ?thesis
    by (simp add: totals_v2_def foldl_sample_v2_count)
qed

text \<open>
  Claim C8. In the per-pixel averaging loop of \<open>blur\<close> (versions 1 and 2), for every
  image with at least one pixel and every pixel position, \<open>numberOfPixels\<close> is at
  least 1 when the averages are computed, so the four divisions never divide by zero.
  In version 1 the pixel \<open>(x * 1, y)\<close> itself always passes the check; in version 2
  one of the positions \<open>pos - 4\<close>, \<open>pos + 4\<close>, \<open>pos - width + 4\<close> does. The
  count does not depend on the contents of the buffer, so this holds in every pass.
\<close>

theorem numberOfPixels_at_least_one:
  "(x < width src \<and> y < height src \<longrightarrow>
      (\<exists>t. totals_v1 src (int x) (int y) = Inr t \<and> 1 \<le> numberOfPixels_of t))
   \<and> (wf_canvas_image_v2 c \<and> pos \<in> set (positions_v2 (length (imageData c))) \<longrightarrow>
      1 \<le> numberOfPixels_of
             (totals_v2 d (int (length (imageData c))) (4 * int (v2_width c)) pos))"
  using totals_v1_count[of x src y]
    totals_v2_count[of "v2_width c" "v2_height c" "length (imageData c)" pos d]
  unfolding wf_canvas_image_v2_def by blast

theorem numberOfPixels_at_least_one_witness:
  "(\<exists>t. totals_v1 \<lparr>width = 2, height = 2, data = replicate 16 7\<rparr> (int 0) (int 0) = Inr t
        \<and> 1 \<le> numberOfPixels_of t)
   \<and> 1 \<le> numberOfPixels_of (totals_v2 (replicate 16 7) (int 16) (4 * int 2) 0)"
  using numberOfPixels_at_least_one
    [of 0 "\<lparr>width = 2, height = 2, data = replicate 16 7\<rparr>" 0
        "\<lparr>v2_width = 2, v2_height = 2, imageData = replicate 16 7, v2_canvas = []\<rparr>" 0
        "replicate 16 7"]
  by (simp add: wf_canvas_image_v2_def positions_v2_def)


section \<open>The compositing blurs leave the context as they found it\<close>

lemma draw_step_frame:
  assumes "draw_step drawImage y ctx x = Inr ctx'"
  shows "globalAlpha ctx' = globalAlpha ctx \<and> config ctx' = config ctx"
  using assms by (auto simp: draw_step_def split: sum.splits)

lemma draw_row_frame:
  assumes "for_each (draw_step drawImage y) xs ctx = Inr ctx'"
  shows "globalAlpha ctx' = globalAlpha ctx \<and> config ctx' = config ctx"
proof (rule for_each_preserves[where P = "\<lambda>s. globalAlpha s = globalAlpha ctx \<and> config s = config ctx",
      OF _ assms])
  fix s x s'
  assume "draw_step drawImage y s x = Inr s'"
    and "globalAlpha s = globalAlpha ctx \<and> config s = config ctx"
  then show "globalAlpha s' = globalAlpha ctx \<and> config s' = config ctx"
    using draw_step_frame[of drawImage y s x s'] by simp
qed simp

lemma draw_rows_frame:
  assumes "for_each (\<lambda>ctx y. for_each (draw_step drawImage y) (xs y) ctx) ys ctx = Inr ctx'"
  shows "globalAlpha ctx' = globalAlpha ctx \<and> config ctx' = config ctx"
proof (rule for_each_preserves[where P = "\<lambda>s. globalAlpha s = globalAlpha ctx \<and> config s = config ctx",
      OF _ assms])
  fix s y s'
  assume "for_each (draw_step drawImage y) (xs y) s = Inr s'"
    and "globalAlpha s = globalAlpha ctx \<and> config s = config ctx"
  then show "globalAlpha s' = globalAlpha ctx \<and> config s' = config ctx"
    using draw_row_frame[of drawImage y "xs y" s s'] by simp
qed simp

lemma draw_passes_frame:
  assumes "for_each (\<lambda>ctx i. for_each (\<lambda>ctx y. for_each (draw_step drawImage y) (xs y) ctx) ys ctx)
             is ctx = Inr ctx'"
  shows "globalAlpha ctx' = globalAlpha ctx \<and> config ctx' = config ctx"
proof (rule for_each_preserves[where P = "\<lambda>s. globalAlpha s = globalAlpha ctx \<and> config s = config ctx",
      OF _ assms])
  fix s i s'
  assume "for_each (\<lambda>ctx y. for_each (draw_step drawImage y) (xs y) ctx) ys s = Inr s'"
    and "globalAlpha s = globalAlpha ctx \<and> config s = config ctx"
  then show "globalAlpha s' = globalAlpha ctx \<and> config s' = config ctx"
    using draw_rows_frame[of drawImage xs ys s s'] by simp
qed simp

lemma blur_v3_frame:
  assumes "blur_v3 drawImage ctx passes = Inr ctx'"
  shows "globalAlpha ctx' = 1 \<and> config ctx' = config ctx"
proof -
  from assms obtain c1 where c1:
    "for_each (\<lambda>ctx i. for_each (\<lambda>ctx y. for_each (draw_step drawImage y) [-1..1] ctx) [-1..1] ctx)
       [1..passes] (ctx\<lparr>globalAlpha := 0.125\<rparr>) = Inr c1"
    and r: "ctx' = c1\<lparr>globalAlpha := 1.0\<rparr>"
    by (auto simp: blur_v3_def split: sum.splits)
  from draw_passes_frame[OF c1] r show ?thesis by simp
qed

lemma blur_v5_frame:
  assumes "blur_v5 drawImage ctx strength = Inr ctx'"
  shows "globalAlpha ctx' = 1 \<and> config ctx' = config ctx"
proof -
  from assms obtain c1 where c1:
    "for_each (\<lambda>ctx y. for_each (draw_step drawImage y) [- strength..strength] ctx)
       [- strength..strength] (ctx\<lparr>globalAlpha := 0.5\<rparr>) = Inr c1"
    and r: "ctx' = c1\<lparr>globalAlpha := 1.0\<rparr>"
    by (auto simp: blur_v5_def split: sum.splits)
  from draw_rows_frame[OF c1] r show ?thesis by simp
qed

lemma draw_step_total:
  assumes "\<And>c x y. \<exists>b. drawImage c x y = Inr b"
  shows "\<exists>ctx'. draw_step drawImage y ctx x = Inr ctx'"
proof -
  obtain b where "drawImage ctx x y = Inr b" using assms by blast
  then show ?thesis by (simp add: draw_step_def)
qed

lemma blur_v3_returns:
  assumes "\<And>c x y. \<exists>b. drawImage c x y = Inr b"
  shows "\<exists>ctx'. blur_v3 drawImage ctx passes = Inr ctx'"
proof -
  have 1: "\<And>y ctx. \<exists>r. for_each (draw_step drawImage y) [-1..1] ctx = Inr r"
    by (rule for_each_total) (rule draw_step_total[OF assms])
  have 2: "\<And>ctx (i::int). \<exists>r. for_each (\<lambda>ctx y. for_each (draw_step drawImage y) [-1..1] ctx) [-1..1] ctx = Inr r"
    by (rule for_each_total) (rule 1)
  obtain r where "for_each (\<lambda>ctx i. for_each (\<lambda>ctx y. for_each (draw_step drawImage y) [-1..1] ctx) [-1..1] ctx)
       [1..passes] (ctx\<lparr>globalAlpha := 0.125\<rparr>) = Inr r"
    using for_each_total[of "\<lambda>ctx i. for_each (\<lambda>ctx y. for_each (draw_step drawImage y) [-1..1] ctx) [-1..1] ctx"] 2
    by blast
  then show ?thesis by (simp add: blur_v3_def)
qed

lemma blur_v5_returns:
  assumes "\<And>c x y. \<exists>b. drawImage c x y = Inr b"
  shows "\<exists>ctx'. blur_v5 drawImage ctx strength = Inr ctx'"
proof -
  have 1: "\<And>y ctx. \<exists>r. for_each (draw_step drawImage y) [- strength..strength] ctx = Inr r"
    by (rule for_each_total) (rule draw_step_total[OF assms])
  obtain r where "for_each (\<lambda>ctx y. for_each (draw_step drawImage y) [- strength..strength] ctx)
       [- strength..strength] (ctx\<lparr>globalAlpha := 0.5\<rparr>) = Inr r"
    using for_each_total[of "\<lambda>ctx y. for_each (draw_step drawImage y) [- strength..strength] ctx"] 1
    by blast
  then show ?thesis by (simp add: blur_v5_def)
qed

text \<open>
  Claim C10. In versions 3 and 5, after \<open>blur\<close> returns, the context's
  \<open>globalAlpha\<close> is 1.0 for every argument value (an integer, as the parameter is
  documented), and no other context configuration is left modified. When
  \<open>drawImage\<close> does not raise, \<open>blur\<close> does return.
\<close>

theorem blur_restores_globalAlpha:
  "(blur_v3 drawImage ctx passes = Inr ctx3 \<longrightarrow> globalAlpha ctx3 = 1 \<and> config ctx3 = config ctx)
   \<and> (blur_v5 drawImage ctx strength = Inr ctx5 \<longrightarrow> globalAlpha ctx5 = 1 \<and> config ctx5 = config ctx)
   \<and> ((\<forall>c x y. \<exists>b. drawImage c x y = Inr b) \<longrightarrow>
        (\<exists>ctx'. blur_v3 drawImage ctx passes = Inr ctx') \<and>
        (\<exists>ctx'. blur_v5 drawImage ctx strength = Inr ctx'))"
  using blur_v3_frame[of drawImage ctx passes ctx3] blur_v5_frame[of drawImage ctx strength ctx5]
    blur_v3_returns[of drawImage ctx passes] blur_v5_returns[of drawImage ctx strength]
  by blast

theorem blur_restores_globalAlpha_witness:
  "blur_v3 count_draws \<lparr>globalAlpha = 3 / 4, config = ''source-over'', bitmap = 0\<rparr> 2
     = Inr \<lparr>globalAlpha = 1, config = ''source-over'', bitmap = 18\<rparr>
   \<and> blur_v5 count_draws \<lparr>globalAlpha = 3 / 4, config = ''source-over'', bitmap = 0\<rparr> 1
     = Inr \<lparr>globalAlpha = 1, config = ''source-over'', bitmap = 9\<rparr>
   \<and> globalAlpha \<lparr>globalAlpha = 1, config = ''source-over'', bitmap = 18::nat\<rparr> = 1
   \<and> config \<lparr>globalAlpha = 1, config = ''source-over'', bitmap = 9::nat\<rparr>
       = config \<lparr>globalAlpha = 3 / 4, config = ''source-over'', bitmap = 0::nat\<rparr>"
proof -
  have a: "blur_v3 count_draws \<lparr>globalAlpha = 3 / 4, config = ''source-over'', bitmap = 0\<rparr> 2
     = Inr \<lparr>globalAlpha = 1, config = ''source-over'', bitmap = 18\<rparr>"
    by code_simp
  have b: "blur_v5 count_draws \<lparr>globalAlpha = 3 / 4, config = ''source-over'', bitmap = 0\<rparr> 1
     = Inr \<lparr>globalAlpha = 1, config = ''source-over'', bitmap = 9\<rparr>"
    by code_simp
  have c: "\<forall>c x y. \<exists>b. count_draws c x y = Inr b"
    by (simp add: count_draws_def)
  from blur_restores_globalAlpha
    [of count_draws "\<lparr>globalAlpha = 3 / 4, config = ''source-over'', bitmap = 0\<rparr>" 2
        "\<lparr>globalAlpha = 1, config = ''source-over'', bitmap = 18\<rparr>" 1
        "\<lparr>globalAlpha = 1, config = ''source-over'', bitmap = 9\<rparr>"] a b c
  show ?thesis by simp
qed


section \<open>The range check of convertCoordsToIndex\<close>

text \<open>
  Claim C2. In version 1, \<open>getPixel(x, y)\<close> returns \<open>false\<close> exactly when the
  coordinates are out of range (\<open>x < 0\<close>, \<open>x >= width\<close>, \<open>y < 0\<close> or
  \<open>y >= height\<close>). The check of \<open>convertCoordsToIndex\<close> compares with \<open>>\<close>
  where \<open>>=\<close> is needed: on a 2x2 image \<open>getPixel(2, 0)\<close> does not return
  \<open>false\<close> but the four bytes of the pixel at \<open>(0, 1)\<close>.
\<close>

theorem getPixel_accepts_x_equal_width:
  "getPixel \<lparr>width = 2, height = 2, data = [1, 2, 3, 4, 5, 6, 7, 8, 9, 10, 11, 12, 13, 14, 15, 16]\<rparr> 2 0
     = Inr (Pixel [Num 9, Num 10, Num 11, Num 12])"
  by (simp add: getPixel_def convertCoordsToIndex_def data_get_def)

text \<open>
  Claim C3. Every buffer access performed during \<open>blur\<close> stays within the bounds of
  the data array. In version 1 the same check lets \<open>y = height\<close> through: on a 1x1
  image the pass over pixel \<open>(0, 0)\<close> samples \<open>(0, 1)\<close>, whose index 4 is the
  length of the buffer, and reads four values past its end.
\<close>

theorem blur_v1_reads_past_buffer:
  "(0, 1) \<in> set (surroundingPixels_v1 0 0)
   \<and> convertCoordsToIndex \<lparr>width = 1, height = 1, data = [10, 20, 30, 40]\<rparr> 0 1 = Inr 4
   \<and> length (data \<lparr>width = 1, height = 1, data = [10, 20, 30, 40]\<rparr>) = 4
   \<and> getPixel \<lparr>width = 1, height = 1, data = [10, 20, 30, 40]\<rparr> 0 1
       = Inr (Pixel [Undefined, Undefined, Undefined, Undefined])"
  by (simp add: surroundingPixels_v1_def getPixel_def convertCoordsToIndex_def data_get_def)

text \<open>
  Claim C4. In every per-pixel step of \<open>blur\<close>, each channel of the pixel value
  written equals the sum of the sampled values divided by their count. In version 1, on a
  1x1 image, two of the three sampled positions lie past the buffer: their channels are
  \<open>undefined\<close>, the totals are \<open>NaN\<close>, every channel of \<open>pixelValue\<close> is
  \<open>NaN\<close>, and the pixel stored is transparent black.
\<close>

theorem blur_v1_pixelValue_NaN:
  "totals_v1 \<lparr>width = 1, height = 1, data = [10, 20, 30, 40]\<rparr> 0 0 = Inr (NaN, NaN, NaN, NaN, 3)
   \<and> pixelValue (NaN, NaN, NaN, NaN, 3) = [NaN, NaN, NaN, NaN]
   \<and> blur_v1 \<lparr>ci_width = 1, ci_height = 1,
        canvasImageData = \<lparr>width = 1, height = 1, data = [10, 20, 30, 40]\<rparr>, canvas = []\<rparr> 1
      = Inr \<lparr>ci_width = 1, ci_height = 1,
        canvasImageData = \<lparr>width = 1, height = 1, data = [0, 0, 0, 0]\<rparr>, canvas = [0, 0, 0, 0]\<rparr>"
  by code_simp


section \<open>Reading and writing whole pixels\<close>

lemma length_write4 [simp]: "length (write4 d i b) = length d"
  by (simp add: write4_def)

lemma nth_write4:
  assumes "i + 3 < length d"
  shows "write4 d i b ! n = (if i \<le> n \<and> n < i + 4 then b (n - i) else d ! n)"
proof -
  consider "n < i" | "n = i" | "n = i + 1" | "n = i + 2" | "n = i + 3" | "i + 4 \<le> n"
    by linarith
  then show ?thesis
    using assms by cases (simp_all add: write4_def nth_list_update)
qed

lemma round_half_even_of_nat: "round_half_even (of_nat n) = int n"
proof -
  have f: "\<lfloor>(of_nat n :: rat)\<rfloor> = int n" by simp
  show ?thesis unfolding round_half_even_def Let_def f by simp
qed

lemma toUint8Clamp_nat:
  assumes "n < 256"
  shows "toUint8Clamp (Num (of_nat n)) = (of_nat n :: byte)"
proof -
  consider "n = 0" | "n = 255" | "0 < n" "n < 255" using assms by linarith
  then show ?thesis
  proof cases
    case 1
    then show ?thesis by simp
  next
    case 2
    then show ?thesis by simp
  next
    case 3
    then have "\<not> (of_nat n :: rat) \<le> 0" "\<not> (255 :: rat) \<le> of_nat n"
      by simp_all
    then show ?thesis by (simp add: round_half_even_of_nat)
  qed
qed

lemma toUint8Clamp_byte: "toUint8Clamp (Num (of_nat (unat (b :: byte)))) = b"
proof -
  have "unat b < 256" using unsigned_less[of b, where ?'a = nat] by simp
  from toUint8Clamp_nat[OF this] show ?thesis
    by simp
qed

lemma pixel_in_buffer:
  assumes "x < w" and "y < h"
  shows "y * w + x < w * (h::nat)"
proof -
  have "y * w + x < Suc y * w" using assms(1) by simp
  also have "\<dots> \<le> h * w" using assms(2) by (simp only: mult_le_mono1 Suc_leI)
  finally show ?thesis by (simp add: mult.commute)
qed

lemma pixel_index_in_buffer:
  assumes "x < w" and "y < h" and "k < 4"
  shows "pixel_index w x y + k < 4 * w * h"
  using pixel_in_buffer[OF assms(1,2)] assms(3) by (simp add: pixel_index_def)

lemma convertCoordsToIndex_nat:
  assumes "x \<le> width d" and "y \<le> height d"
  shows "convertCoordsToIndex d (int x) (int y) = Inr (int (pixel_index (width d) x y))"
  using assms by (simp add: convertCoordsToIndex_def pixel_index_def algebra_simps)

lemma data_get_nat:
  "i + k < length d \<Longrightarrow> data_get d (int i + int k) = Num (of_nat (unat (d ! (i + k))))"
  by (simp add: data_get_def nat_add_distrib)

lemma getPixel_in_range:
  assumes "x < width d" and "y < height d" and "length (data d) = 4 * width d * height d"
  shows "getPixel d (int x) (int y) =
     Inr (Pixel (map (\<lambda>k. Num (of_nat (unat (data d ! (pixel_index (width d) x y + k))))) [0, 1, 2, 3]))"
proof -
  have b: "\<And>k. k < 4 \<Longrightarrow> pixel_index (width d) x y + k < length (data d)"
    using pixel_index_in_buffer[OF assms(1,2)] assms(3) by simp
  show ?thesis
    using b[of 0] b[of 1] b[of 2] b[of 3] assms(1,2)
      data_get_nat[of "pixel_index (width d) x y" 0 "data d"]
      data_get_nat[of "pixel_index (width d) x y" 1 "data d"]
      data_get_nat[of "pixel_index (width d) x y" 2 "data d"]
      data_get_nat[of "pixel_index (width d) x y" 3 "data d"]
    by (simp add: getPixel_def convertCoordsToIndex_nat)
qed

lemma data_set_nat:
  "i + k < length d \<Longrightarrow> data_set d (int i + int k) v = d[i + k := toUint8Clamp v]"
  by (simp add: data_set_def nat_add_distrib)

lemma setPixel_in_range:
  assumes "x < width d" and "y < height d" and "length (data d) = 4 * width d * height d"
  shows "setPixel d (int x) (int y) pv =
     Inr (SDone, d\<lparr>data := write4 (data d) (pixel_index (width d) x y)
                               (\<lambda>k. toUint8Clamp (arr_get pv k))\<rparr>)"
proof -
  have b: "\<And>k. k < 4 \<Longrightarrow> pixel_index (width d) x y + k < length (data d)"
    using pixel_index_in_buffer[OF assms(1,2)] assms(3) by simp
  show ?thesis
    using b[of 0] b[of 1] b[of 2] b[of 3] assms(1,2)
      data_set_nat[of "pixel_index (width d) x y" 0]
      data_set_nat[of "pixel_index (width d) x y" 1]
      data_set_nat[of "pixel_index (width d) x y" 2]
      data_set_nat[of "pixel_index (width d) x y" 3]
    by (simp add: setPixel_def convertCoordsToIndex_nat write4_def)
qed

lemma toUint8Clamp_unsigned [simp]: "toUint8Clamp (Num (unsigned (b :: byte))) = b"
  using toUint8Clamp_byte[of b] by simp

lemma nth_write4_at:
  "i + 3 < length d \<Longrightarrow> k < 4 \<Longrightarrow> write4 d i b ! (i + k) = b k"
  by (simp add: nth_write4)

lemma nth_write4_other:
  "i + 3 < length d \<Longrightarrow> n < i \<or> i + 4 \<le> n \<Longrightarrow> write4 d i b ! n = d ! n"
  by (auto simp: nth_write4)

section \<open>flipHorizontal mirrors every row\<close>

lemma flip_pixel_in_range:
  assumes "x < w" and "y < h"
    and "width old = w" and "height old = h" and "length (data old) = 4 * w * h"
    and "width new = w" and "height new = h" and "length (data new) = 4 * w * h"
  shows "flip_pixel old w y new x =
     Inr (new\<lparr>data := write4 (data new) (pixel_index w (w - 1 - x) y)
                            (\<lambda>k. data old ! (pixel_index w x y + k))\<rparr>)"
proof -
  define xr where "xr = w - 1 - x"
  define pv where
    "pv = map (\<lambda>k. Num (of_nat (unat (data old ! (pixel_index w x y + k))))) [0, 1, 2, 3]"
  have pos: "- (int x - int w) - 1 = int xr" using assms(1) by (simp add: xr_def)
  have xr: "xr < width new" using assms(1,6) by (simp add: xr_def)
  have g: "getPixel old (int x) (int y) = Inr (Pixel pv)"
    using getPixel_in_range[of x old y] assms by (simp add: pv_def)
  have s: "setPixel new (int xr) (int y) pv =
     Inr (SDone, new\<lparr>data := write4 (data new) (pixel_index w xr y)
                               (\<lambda>k. toUint8Clamp (arr_get pv k))\<rparr>)"
    using setPixel_in_range[of xr new y pv] xr assms by simp
  have w4: "write4 (data new) (pixel_index w xr y) (\<lambda>k. toUint8Clamp (arr_get pv k))
      = write4 (data new) (pixel_index w xr y) (\<lambda>k. data old ! (pixel_index w x y + k))"
    by (simp add: write4_def arr_get_def pv_def del: toUint8Clamp.simps)
  have "flip_pixel old w y new x =
     Inr (new\<lparr>data := write4 (data new) (pixel_index w xr y)
                            (\<lambda>k. data old ! (pixel_index w x y + k))\<rparr>)"
    unfolding flip_pixel_def Let_def pos g by (simp add: s w4)
  then show ?thesis by (simp only: xr_def)
qed

lemma flip_row:
  assumes "y < h"
    and old: "width old = w" "height old = h" "length (data old) = 4 * w * h"
    and new: "width new = w" "height new = h" "length (data new) = 4 * w * h"
  shows "\<exists>new'. for_each (flip_pixel old w y) [0..<w] new = Inr new'
      \<and> width new' = w \<and> height new' = h \<and> length (data new') = 4 * w * h
      \<and> (\<forall>x k. x < w \<and> k < 4 \<longrightarrow>
            data new' ! (pixel_index w (w - 1 - x) y + k) = data old ! (pixel_index w x y + k))
      \<and> (\<forall>n. n < 4 * (y * w) \<or> 4 * (y * w) + 4 * w \<le> n \<longrightarrow> data new' ! n = data new ! n)"
proof -
  define P where "P = (\<lambda>i (s :: image_data).
      width s = w \<and> height s = h \<and> length (data s) = 4 * w * h
      \<and> (\<forall>x k. x < i \<and> k < 4 \<longrightarrow>
            data s ! (pixel_index w (w - 1 - x) y + k) = data old ! (pixel_index w x y + k))
      \<and> (\<forall>n. n < 4 * (y * w) \<or> 4 * (y * w) + 4 * w \<le> n \<longrightarrow> data s ! n = data new ! n))"
  have init: "P 0 new" using new by (simp add: P_def)
  have step: "\<exists>s'. flip_pixel old w y s i = Inr s' \<and> P (Suc i) s'" if i: "i < w" and Ps: "P i s" for i s
  proof -
    define j where "j = pixel_index w (w - 1 - i) y"
    define b where "b = (\<lambda>k. data old ! (pixel_index w i y + k))"
    define s' where "s' = s\<lparr>data := write4 (data s) j b\<rparr>"
    from Ps have dims: "width s = w" "height s = h" "length (data s) = 4 * w * h"
      by (simp_all add: P_def)
    from Ps have prev: "\<And>x k. x < i \<Longrightarrow> k < 4 \<Longrightarrow>
        data s ! (pixel_index w (w - 1 - x) y + k) = data old ! (pixel_index w x y + k)"
      unfolding P_def by blast
    from Ps have rest: "\<And>n. n < 4 * (y * w) \<or> 4 * (y * w) + 4 * w \<le> n \<Longrightarrow> data s ! n = data new ! n"
      unfolding P_def by blast
    have fp: "flip_pixel old w y s i = Inr s'"
      using flip_pixel_in_range[OF i assms(1) old dims] by (simp add: s'_def j_def b_def)
    have jb: "j + 3 < length (data s)"
      using pixel_index_in_buffer[of "w - 1 - i" w y h 3] i assms(1) dims by (simp add: j_def)
    have j: "j + 4 * i + 4 = 4 * (y * w) + 4 * w" using i by (simp add: j_def pixel_index_def)
    have ds': "data s' = write4 (data s) j b" by (simp add: s'_def)
    have a: "data s' ! (pixel_index w (w - 1 - x) y + k) = data old ! (pixel_index w x y + k)"
      if "x < Suc i" "k < 4" for x k
    proof (cases "x = i")
      case True
      have "write4 (data s) j b ! (j + k) = b k" using nth_write4_at[OF jb that(2)] .
      then show ?thesis using True by (simp add: ds' j_def b_def)
    next
      case False
      with that have xi: "x < i" by simp
      define n where "n = pixel_index w (w - 1 - x) y + k"
      have "n + 4 * x + 4 = 4 * (y * w) + 4 * w + k" using xi i by (simp add: n_def pixel_index_def)
      with j xi have "j + 4 \<le> n" by linarith
      then have "write4 (data s) j b ! n = data s ! n" using nth_write4_other[OF jb] by blast
      then show ?thesis using prev[OF xi that(2)] by (simp add: ds' n_def)
    qed
    have c: "data s' ! n = data new ! n" if "n < 4 * (y * w) \<or> 4 * (y * w) + 4 * w \<le> n" for n
    proof -
      from that j i have "n < j \<or> j + 4 \<le> n" by linarith
      then have "write4 (data s) j b ! n = data s ! n" using nth_write4_other[OF jb] by blast
      then show ?thesis using rest[OF that] by (simp add: ds')
    qed
    have "width s' = w" "height s' = h" "length (data s') = 4 * w * h"
      using dims by (simp_all add: s'_def)
    with a c have "P (Suc i) s'" unfolding P_def by blast
    with fp show ?thesis by blast
  qed
  from for_each_upt_rule[of P new w "flip_pixel old w y", OF init step]
  show ?thesis unfolding P_def by blast
qed

lemma flip_rows:
  assumes old: "width old = w" "height old = h" "length (data old) = 4 * w * h"
    and new: "width new = w" "height new = h" "length (data new) = 4 * w * h"
  shows "\<exists>new'. for_each (\<lambda>n y. for_each (flip_pixel old w y) [0..<w] n) [0..<h] new = Inr new'
      \<and> width new' = w \<and> height new' = h \<and> length (data new') = 4 * w * h
      \<and> (\<forall>x y k. x < w \<and> y < h \<and> k < 4 \<longrightarrow>
            data new' ! (pixel_index w (w - 1 - x) y + k) = data old ! (pixel_index w x y + k))"
proof -
  define Q where "Q = (\<lambda>i (s :: image_data).
      width s = w \<and> height s = h \<and> length (data s) = 4 * w * h
      \<and> (\<forall>x y k. x < w \<and> y < i \<and> k < 4 \<longrightarrow>
            data s ! (pixel_index w (w - 1 - x) y + k) = data old ! (pixel_index w x y + k)))"
  have init: "Q 0 new" using new by (simp add: Q_def)
  have step: "\<exists>s'. for_each (flip_pixel old w i) [0..<w] s = Inr s' \<and> Q (Suc i) s'"
    if i: "i < h" and Qs: "Q i s" for i s
  proof -
    from Qs have dims: "width s = w" "height s = h" "length (data s) = 4 * w * h"
      by (simp_all add: Q_def)
    from Qs have prev: "\<And>x y k. x < w \<Longrightarrow> y < i \<Longrightarrow> k < 4 \<Longrightarrow>
        data s ! (pixel_index w (w - 1 - x) y + k) = data old ! (pixel_index w x y + k)"
      unfolding Q_def by blast
    from flip_row[OF i old dims] obtain s' where s':
      "for_each (flip_pixel old w i) [0..<w] s = Inr s'"
      "width s' = w" "height s' = h" "length (data s') = 4 * w * h"
      and row: "\<And>x k. x < w \<Longrightarrow> k < 4 \<Longrightarrow>
            data s' ! (pixel_index w (w - 1 - x) i + k) = data old ! (pixel_index w x i + k)"
      and rest: "\<And>n. n < 4 * (i * w) \<or> 4 * (i * w) + 4 * w \<le> n \<Longrightarrow> data s' ! n = data s ! n"
      by blast
    have a: "data s' ! (pixel_index w (w - 1 - x) y + k) = data old ! (pixel_index w x y + k)"
      if "x < w" "y < Suc i" "k < 4" for x y k
    proof (cases "y = i")
      case True
      then show ?thesis using row[OF that(1,3)] by simp
    next
      case False
      with that have yi: "y < i" by simp
      define n where "n = pixel_index w (w - 1 - x) y + k"
      have "Suc y * w \<le> i * w" using yi by (simp only: Suc_leI mult_le_mono1)
      then have le: "y * w + w \<le> i * w" by simp
      have "n + 4 * x + 4 = 4 * (y * w) + 4 * w + k" using that(1) by (simp add: n_def pixel_index_def)
      with le that(3) have "n < 4 * (i * w)" by linarith
      then have "data s' ! n = data s ! n" using rest by blast
      then show ?thesis using prev[OF that(1) yi that(3)] by (simp add: n_def)
    qed
    from a s'(2-4) have "Q (Suc i) s'" unfolding Q_def by blast
    with s'(1) show ?thesis by blast
  qed
  from for_each_upt_rule[of Q new h "\<lambda>n y. for_each (flip_pixel old w y) [0..<w] n", OF init step]
  show ?thesis unfolding Q_def by blast
qed

lemma flipHorizontal_pixels:
  assumes "wf_canvas_image c"
  shows "\<exists>c'. flipHorizontal c = Inr c' \<and> wf_canvas_image c'
      \<and> ci_width c' = ci_width c \<and> ci_height c' = ci_height c
      \<and> (\<forall>x y k. x < ci_width c \<and> y < ci_height c \<and> k < 4 \<longrightarrow>
            data (canvasImageData c') ! (pixel_index (ci_width c) (ci_width c - 1 - x) y + k)
              = data (canvasImageData c) ! (pixel_index (ci_width c) x y + k))"
proof -
  let ?w = "ci_width c" and ?h = "ci_height c"
  from assms have old: "width (canvasImageData c) = ?w" "height (canvasImageData c) = ?h"
      "length (data (canvasImageData c)) = 4 * ?w * ?h" and pos: "0 < ?w" "0 < ?h"
    by (simp_all add: wf_canvas_image_def wf_image_def)
  have new: "width (createImageData ?w ?h) = ?w" "height (createImageData ?w ?h) = ?h"
      "length (data (createImageData ?w ?h)) = 4 * ?w * ?h"
    by (simp_all add: createImageData_def createImageData_data_def)
  from flip_rows[OF old new] obtain n where n:
    "for_each (\<lambda>n y. for_each (flip_pixel (canvasImageData c) ?w y) [0..<?w] n) [0..<?h]
        (createImageData ?w ?h) = Inr n"
    "width n = ?w" "height n = ?h" "length (data n) = 4 * ?w * ?h"
    and px: "\<And>x y k. x < ?w \<Longrightarrow> y < ?h \<Longrightarrow> k < 4 \<Longrightarrow>
       data n ! (pixel_index ?w (?w - 1 - x) y + k) = data (canvasImageData c) ! (pixel_index ?w x y + k)"
    by blast
  have f: "flipHorizontal c = Inr (redraw (c\<lparr>canvasImageData := n\<rparr>))"
    by (simp add: flipHorizontal_def n(1))
  have "wf_canvas_image (redraw (c\<lparr>canvasImageData := n\<rparr>))"
    using n(2-4) pos by (simp add: wf_canvas_image_def wf_image_def redraw_def)
  moreover have "canvasImageData (redraw (c\<lparr>canvasImageData := n\<rparr>)) = n"
    "ci_width (redraw (c\<lparr>canvasImageData := n\<rparr>)) = ?w"
    "ci_height (redraw (c\<lparr>canvasImageData := n\<rparr>)) = ?h"
    by (simp_all add: redraw_def)
  ultimately show ?thesis using f px by auto
qed

lemma index_decompose:
  assumes "n < 4 * w * h"
  shows "\<exists>x y k. x < w \<and> y < h \<and> k < 4 \<and> n = pixel_index w x y + k"
proof -
  define p where "p = n div 4"
  have p: "p < w * h" using assms by (simp add: p_def less_mult_imp_div_less mult.commute mult.assoc)
  then have w: "0 < w" by (cases w) simp_all
  have "p mod w < w" using w by simp
  moreover have "p div w < h" using p by (simp add: less_mult_imp_div_less mult.commute)
  moreover have "n mod 4 < 4" by simp
  moreover have "n = pixel_index w (p mod w) (p div w) + n mod 4"
    by (simp add: pixel_index_def p_def)
  ultimately show ?thesis by blast
qed

text \<open>
  Claim C9. \<open>flipHorizontal\<close> is an involution: for every image, applying it twice
  leaves every pixel of the image data equal to its original value; one application moves
  the pixel at \<open>(x, y)\<close> to \<open>(width - 1 - x, y)\<close>.
\<close>

theorem flipHorizontal_involution:
  assumes "wf_canvas_image c"
  shows "\<exists>c1 c2. flipHorizontal c = Inr c1 \<and> flipHorizontal c1 = Inr c2
      \<and> canvasImageData c2 = canvasImageData c
      \<and> (\<forall>x y k. x < ci_width c \<and> y < ci_height c \<and> k < 4 \<longrightarrow>
            data (canvasImageData c1) ! (pixel_index (ci_width c) (ci_width c - 1 - x) y + k)
              = data (canvasImageData c) ! (pixel_index (ci_width c) x y + k))"
proof -
  let ?w = "ci_width c" and ?h = "ci_height c"
  from flipHorizontal_pixels[OF assms] obtain c1 where c1:
    "flipHorizontal c = Inr c1" "wf_canvas_image c1" "ci_width c1 = ?w" "ci_height c1 = ?h"
    and px1: "\<And>x y k. x < ?w \<Longrightarrow> y < ?h \<Longrightarrow> k < 4 \<Longrightarrow>
       data (canvasImageData c1) ! (pixel_index ?w (?w - 1 - x) y + k)
         = data (canvasImageData c) ! (pixel_index ?w x y + k)"
    by blast
  from flipHorizontal_pixels[OF c1(2)] c1(3,4) obtain c2 where c2:
    "flipHorizontal c1 = Inr c2" "wf_canvas_image c2" "ci_width c2 = ?w" "ci_height c2 = ?h"
    and px2: "\<And>x y k. x < ?w \<Longrightarrow> y < ?h \<Longrightarrow> k < 4 \<Longrightarrow>
       data (canvasImageData c2) ! (pixel_index ?w (?w - 1 - x) y + k)
         = data (canvasImageData c1) ! (pixel_index ?w x y + k)"
    by auto
  have dims: "width (canvasImageData c2) = width (canvasImageData c)"
    "height (canvasImageData c2) = height (canvasImageData c)"
    "length (data (canvasImageData c2)) = 4 * ?w * ?h"
    "length (data (canvasImageData c)) = 4 * ?w * ?h"
    using assms c2(2-4) by (simp_all add: wf_canvas_image_def wf_image_def)
  have "data (canvasImageData c2) = data (canvasImageData c)"
  proof (rule nth_equalityI)
    show "length (data (canvasImageData c2)) = length (data (canvasImageData c))"
      using dims by simp
  next
    fix n assume "n < length (data (canvasImageData c2))"
    then have "n < 4 * ?w * ?h" using dims by simp
    from index_decompose[OF this] obtain x y k where
      xyk: "x < ?w" "y < ?h" "k < 4" "n = pixel_index ?w x y + k" by blast
    define x' where "x' = ?w - 1 - x"
    have x': "x' < ?w" "?w - 1 - x' = x" using xyk(1) by (simp_all add: x'_def)
    have "data (canvasImageData c2) ! (pixel_index ?w x y + k)
        = data (canvasImageData c1) ! (pixel_index ?w x' y + k)"
      using px2[OF x'(1) xyk(2,3)] x'(2) by simp
    also have "\<dots> = data (canvasImageData c) ! (pixel_index ?w x y + k)"
      using px1[OF xyk(1-3)] by (simp add: x'_def)
    finally show "data (canvasImageData c2) ! n = data (canvasImageData c) ! n"
      using xyk(4) by simp
  qed
  with dims(1,2) have "canvasImageData c2 = canvasImageData c" by simp
  with c1(1) c2(1) px1 show ?thesis by blast
qed

theorem flipHorizontal_involution_witness:
  "wf_canvas_image \<lparr>ci_width = 2, ci_height = 1,
       canvasImageData = \<lparr>width = 2, height = 1, data = [1, 2, 3, 4, 5, 6, 7, 8]\<rparr>,
       canvas = [1, 2, 3, 4, 5, 6, 7, 8]\<rparr>
   \<and> flipHorizontal \<lparr>ci_width = 2, ci_height = 1,
       canvasImageData = \<lparr>width = 2, height = 1, data = [1, 2, 3, 4, 5, 6, 7, 8]\<rparr>,
       canvas = [1, 2, 3, 4, 5, 6, 7, 8]\<rparr>
     = Inr \<lparr>ci_width = 2, ci_height = 1,
       canvasImageData = \<lparr>width = 2, height = 1, data = [5, 6, 7, 8, 1, 2, 3, 4]\<rparr>,
       canvas = [5, 6, 7, 8, 1, 2, 3, 4]\<rparr>
   \<and> flipHorizontal \<lparr>ci_width = 2, ci_height = 1,
       canvasImageData = \<lparr>width = 2, height = 1, data = [5, 6, 7, 8, 1, 2, 3, 4]\<rparr>,
       canvas = [5, 6, 7, 8, 1, 2, 3, 4]\<rparr>
     = Inr \<lparr>ci_width = 2, ci_height = 1,
       canvasImageData = \<lparr>width = 2, height = 1, data = [1, 2, 3, 4, 5, 6, 7, 8]\<rparr>,
       canvas = [1, 2, 3, 4, 5, 6, 7, 8]\<rparr>"
proof -
  let ?c = "\<lparr>ci_width = 2, ci_height = 1,
       canvasImageData = \<lparr>width = 2, height = 1, data = [1, 2, 3, 4, 5, 6, 7, 8]\<rparr>,
       canvas = [1, 2, 3, 4, 5, 6, 7, 8]\<rparr>"
  let ?c1 = "\<lparr>ci_width = 2, ci_height = 1,
       canvasImageData = \<lparr>width = 2, height = 1, data = [5, 6, 7, 8, 1, 2, 3, 4]\<rparr>,
       canvas = [5, 6, 7, 8, 1, 2, 3, 4]\<rparr>"
  have wf: "wf_canvas_image ?c"
    by (simp add: wf_canvas_image_def wf_image_def)
  have f1: "flipHorizontal ?c = Inr ?c1"
    by code_simp
  from flipHorizontal_involution[OF wf] f1 obtain c2 where
    c2: "flipHorizontal ?c1 = Inr c2" "canvasImageData c2 = canvasImageData ?c"
    by auto
  have "ci_width c2 = 2 \<and> ci_height c2 = 1 \<and> canvas c2 = data (canvasImageData c2)"
    using c2(1) by (auto simp: flipHorizontal_def redraw_def split: sum.splits)
  with c2(2) have "c2 = ?c" by (cases c2) simp
  with wf f1 c2(1) show ?thesis by simp
qed


section \<open>One pass of version 2\<close>

lemma foldl_upt_rule:
  assumes "P 0 s" and "\<And>i s. i < n \<Longrightarrow> P i s \<Longrightarrow> P (Suc i) (f s i)"
  shows "P n (foldl f s [0..<n])"
  using assms(2)
proof (induction n)
  case 0
  then show ?case using assms(1) by simp
next
  case (Suc n)
  then have "P n (foldl f s [0..<n])" by simp
  then show ?case using Suc.prems[of n] by simp
qed

lemma sampled_in_buffer:
  assumes "sp mod 4 = 0" and "int (length d) mod 4 = 0" and "0 \<le> sp" and "sp \<le> int (length d) - 3"
    and "k < 4"
  shows "data_get d (sp + int k) = Num (of_nat (unat (d ! nat (sp + int k))))"
proof -
  have "sp + 3 < int (length d)" using assms(1-4) by presburger
  then show ?thesis using assms(3,5) by (simp add: data_get_def)
qed

lemma sample_v2_Num:
  assumes "sp mod 4 = 0" and "int (length d) mod 4 = 0"
  shows "sample_v2 d (int (length d)) (Num a0, Num a1, Num a2, Num a3, n) sp =
    (if 0 \<le> sp \<and> sp \<le> int (length d) - 3
     then (Num (a0 + of_nat (unat (d ! nat (sp + int 0)))),
           Num (a1 + of_nat (unat (d ! nat (sp + int 1)))),
           Num (a2 + of_nat (unat (d ! nat (sp + int 2)))),
           Num (a3 + of_nat (unat (d ! nat (sp + int 3)))), n + 1)
     else (Num a0, Num a1, Num a2, Num a3, n))"
proof (cases "0 \<le> sp \<and> sp \<le> int (length d) - 3")
  case True
  then have g: "\<And>k. k < 4 \<Longrightarrow> data_get d (sp + int k) = Num (of_nat (unat (d ! nat (sp + int k))))"
    using sampled_in_buffer[OF assms] by blast
  have "sample_v2 d (int (length d)) (Num a0, Num a1, Num a2, Num a3, n) sp =
      add_pixel (Num a0, Num a1, Num a2, Num a3, n)
        [data_get d (sp + int 0), data_get d (sp + int 1), data_get d (sp + int 2),
         data_get d (sp + int 3)]"
    using True by (simp add: sample_v2_def)
  also have "\<dots> = (Num (a0 + of_nat (unat (d ! nat (sp + int 0)))),
           Num (a1 + of_nat (unat (d ! nat (sp + int 1)))),
           Num (a2 + of_nat (unat (d ! nat (sp + int 2)))),
           Num (a3 + of_nat (unat (d ! nat (sp + int 3)))), n + 1)"
    using g[of 0] g[of 1] g[of 2] g[of 3]
    by (simp add: add_pixel_def arr_get_def)
  finally show ?thesis using True by simp
next
  case False
  then show ?thesis by (auto simp: sample_v2_def)
qed

lemma foldl_sample_v2_totals:
  assumes "\<forall>sp \<in> set sps. sp mod 4 = 0" and "int (length d) mod 4 = 0"
  shows "foldl (sample_v2 d (int (length d))) (Num a0, Num a1, Num a2, Num a3, n) sps =
    (Num (a0 + (\<Sum>sp\<leftarrow>filter (\<lambda>sp. sp \<ge> 0 \<and> sp \<le> int (length d) - 3) sps.
                  of_nat (unat (d ! nat (sp + int 0))))),
     Num (a1 + (\<Sum>sp\<leftarrow>filter (\<lambda>sp. sp \<ge> 0 \<and> sp \<le> int (length d) - 3) sps.
                  of_nat (unat (d ! nat (sp + int 1))))),
     Num (a2 + (\<Sum>sp\<leftarrow>filter (\<lambda>sp. sp \<ge> 0 \<and> sp \<le> int (length d) - 3) sps.
                  of_nat (unat (d ! nat (sp + int 2))))),
     Num (a3 + (\<Sum>sp\<leftarrow>filter (\<lambda>sp. sp \<ge> 0 \<and> sp \<le> int (length d) - 3) sps.
                  of_nat (unat (d ! nat (sp + int 3))))),
     n + length (filter (\<lambda>sp. sp \<ge> 0 \<and> sp \<le> int (length d) - 3) sps))"
  using assms(1)
proof (induction sps arbitrary: a0 a1 a2 a3 n)
  case Nil
  show ?case by simp
next
  case (Cons sp sps)
  from Cons.prems have sp: "sp mod 4 = 0" and rest: "\<forall>sp \<in> set sps. sp mod 4 = 0" by simp_all
  show ?case
    by (simp only: foldl_Cons sample_v2_Num[OF sp assms(2)] Cons.IH[OF rest] split: if_split)
       (simp add: add.assoc)
qed

lemma surroundingPixels_v2_mod4:
  "\<forall>sp \<in> set (surroundingPixels_v2 (4 * int i) (4 * int w)). sp mod 4 = 0"
  by (simp add: surroundingPixels_v2_def)

lemma pixelValue_v2:
  assumes "length d mod 4 = 0" and "k < 4"
    and "sampled_v2 (int (length d)) (4 * int w) (4 * int i) \<noteq> []"
  shows "arr_get (pixelValue (totals_v2 d (int (length d)) (4 * int w) (4 * int i))) k =
     Num (channel_average d (sampled_v2 (int (length d)) (4 * int w) (4 * int i)) k)"
proof -
  have m: "int (length d) mod 4 = 0" using assms(1) by presburger
  have k: "k = 0 \<or> k = 1 \<or> k = 2 \<or> k = 3" using assms(2) by linarith
  have t: "totals_v2 d (int (length d)) (4 * int w) (4 * int i) =
     foldl (sample_v2 d (int (length d))) (Num 0, Num 0, Num 0, Num 0, 0)
       (surroundingPixels_v2 (4 * int i) (4 * int w))"
    by (simp add: totals_v2_def no_totals_def)
  from assms(3) have n: "length (sampled_v2 (int (length d)) (4 * int w) (4 * int i)) \<noteq> 0"
    by simp
  show ?thesis
    unfolding t foldl_sample_v2_totals[OF surroundingPixels_v2_mod4 m]
    using k n by (auto simp: pixelValue_def arr_get_def channel_average_def sampled_v2_def)
qed

lemma data_set4:
  assumes "j + 3 < length d"
  shows "data_set (data_set (data_set (data_set d (int j) v0) (int j + 1) v1) (int j + 2) v2)
           (int j + 3) v3
     = write4 d j (\<lambda>k. toUint8Clamp (arr_get [v0, v1, v2, v3] k))"
  using assms by (simp add: data_set_def write4_def arr_get_def nat_add_distrib del: toUint8Clamp.simps)

lemma arr_get_pixelValue:
  "[arr_get (pixelValue t) 0, arr_get (pixelValue t) 1, arr_get (pixelValue t) 2,
    arr_get (pixelValue t) 3] = pixelValue t"
  by (cases t) (simp add: pixelValue_def arr_get_def)

lemma blur_pixel_v2_write:
  assumes "4 * i + 3 < length (newImage st)"
  shows "blur_pixel_v2 len width4 st (int (4 * i)) =
     st\<lparr>newImage := write4 (newImage st) (4 * i)
        (\<lambda>k. toUint8Clamp (arr_get (pixelValue (totals_v2 (current st) len width4 (int (4 * i)))) k))\<rparr>"
  unfolding blur_pixel_v2_def Let_def data_set4[OF assms] arr_get_pixelValue ..

lemma blur_pass_v2_first:
  assumes "length new = 4 * n"
  shows "\<exists>st. blur_pass_v2 (4 * n) width4 \<lparr>original = d, newImage = new, aliased = False\<rparr> = st
     \<and> aliased st \<and> length (newImage st) = 4 * n
     \<and> (\<forall>j k. j < n \<and> k < 4 \<longrightarrow>
           newImage st ! (4 * j + k) =
             toUint8Clamp (arr_get (pixelValue (totals_v2 d (int (4 * n)) width4 (int (4 * j)))) k))"
proof -
  define R where "R = (\<lambda>i (st :: (byte list) blur_store).
      original st = d \<and> \<not> aliased st \<and> length (newImage st) = 4 * n
      \<and> (\<forall>j k. j < i \<and> k < 4 \<longrightarrow>
           newImage st ! (4 * j + k) =
             toUint8Clamp (arr_get (pixelValue (totals_v2 d (int (4 * n)) width4 (int (4 * j)))) k)))"
  define f where "f = (\<lambda>st i. blur_pixel_v2 (int (4 * n)) width4 st (int (4 * i)))"
  have init: "R 0 \<lparr>original = d, newImage = new, aliased = False\<rparr>"
    using assms by (simp add: R_def)
  have step: "R (Suc i) (f st i)" if i: "i < n" and Rs: "R i st" for i st
  proof -
    from Rs have o: "original st = d" "\<not> aliased st" and l: "length (newImage st) = 4 * n"
      by (simp_all add: R_def)
    from Rs have prev: "\<And>j k. j < i \<Longrightarrow> k < 4 \<Longrightarrow> newImage st ! (4 * j + k) =
        toUint8Clamp (arr_get (pixelValue (totals_v2 d (int (4 * n)) width4 (int (4 * j)))) k)"
      unfolding R_def by blast
    define b where "b = (\<lambda>k. toUint8Clamp
        (arr_get (pixelValue (totals_v2 d (int (4 * n)) width4 (int (4 * i)))) k))"
    have ib: "4 * i + 3 < length (newImage st)" using i l by simp
    have cur: "current st = d" using o by (simp add: current_def)
    have fs: "f st i = st\<lparr>newImage := write4 (newImage st) (4 * i) b\<rparr>"
      unfolding f_def blur_pixel_v2_write[OF ib] cur b_def ..
    have a: "newImage (f st i) ! (4 * j + k) =
        toUint8Clamp (arr_get (pixelValue (totals_v2 d (int (4 * n)) width4 (int (4 * j)))) k)"
      if "j < Suc i" "k < 4" for j k
    proof (cases "j = i")
      case True
      have "write4 (newImage st) (4 * i) b ! (4 * i + k) = b k"
        using nth_write4_at[OF ib that(2)] .
      then show ?thesis using True by (simp add: fs b_def)
    next
      case False
      with that have ji: "j < i" by simp
      then have "4 * j + k < 4 * i" using that(2) by simp
      then have "write4 (newImage st) (4 * i) b ! (4 * j + k) = newImage st ! (4 * j + k)"
        using nth_write4_other[OF ib] by blast
      then show ?thesis using prev[OF ji that(2)] by (simp add: fs)
    qed
    have "original (f st i) = d" "\<not> aliased (f st i)" "length (newImage (f st i)) = 4 * n"
      using o l by (simp_all add: fs)
    with a show ?thesis unfolding R_def by blast
  qed
  have Rn: "R n (foldl f \<lparr>original = d, newImage = new, aliased = False\<rparr> [0..<n])"
    using foldl_upt_rule[of R _ n f, OF init step] .
  have pos: "positions_v2 (4 * n) = map (\<lambda>i. int (4 * i)) [0..<n]"
    by (simp add: positions_v2_def)
  have "blur_pass_v2 (4 * n) width4 \<lparr>original = d, newImage = new, aliased = False\<rparr>
      = (foldl f \<lparr>original = d, newImage = new, aliased = False\<rparr> [0..<n])\<lparr>aliased := True\<rparr>"
    unfolding blur_pass_v2_def pos foldl_map f_def ..
  with Rn show ?thesis unfolding R_def by simp
qed

lemma sampled_v2_count:
  "numberOfPixels_of (totals_v2 d len width4 pos) = length (sampled_v2 len width4 pos)"
proof -
  have "numberOfPixels_of no_totals = 0" by (simp add: no_totals_def numberOfPixels_of_def)
  then show ?thesis by (simp add: totals_v2_def foldl_sample_v2_count sampled_v2_def)
qed

lemma blur_v2_once:
  assumes "wf_canvas_image_v2 c" and "i < v2_width c * v2_height c" and "k < 4"
  shows "imageData (blur_v2 c 1) ! (4 * i + k) =
     toUint8Clamp (Num (channel_average (imageData c)
        (sampled_v2 (int (length (imageData c))) (4 * int (v2_width c)) (int (4 * i))) k))"
proof -
  define n where "n = v2_width c * v2_height c"
  from assms(1) have len: "length (imageData c) = 4 * n" and pos: "0 < v2_width c" "0 < v2_height c"
    and len': "length (imageData c) = 4 * v2_width c * v2_height c"
    by (simp_all add: wf_canvas_image_v2_def n_def)
  have new: "length (createImageData_data (v2_width c) (v2_height c)) = 4 * n"
    by (simp add: createImageData_data_def n_def)
  from blur_pass_v2_first[OF new, of "4 * int (v2_width c)" "imageData c"] obtain st where st:
    "blur_pass_v2 (4 * n) (4 * int (v2_width c))
       \<lparr>original = imageData c, newImage = createImageData_data (v2_width c) (v2_height c),
        aliased = False\<rparr> = st"
    "aliased st"
    and px: "\<And>j k. j < n \<Longrightarrow> k < 4 \<Longrightarrow> newImage st ! (4 * j + k) =
       toUint8Clamp (arr_get (pixelValue
         (totals_v2 (imageData c) (int (4 * n)) (4 * int (v2_width c)) (int (4 * j)))) k)"
    by blast
  have res: "imageData (blur_v2 c 1) = newImage st"
    using st(1,2) by (simp add: blur_v2_def Let_def redraw_v2_def len current_def)
  have "int (4 * i) \<in> set (positions_v2 (length (imageData c)))"
    using assms(2) by (simp add: positions_v2_def len n_def)
  from totals_v2_count[OF pos len' this, of "imageData c"]
  have "sampled_v2 (int (length (imageData c))) (4 * int (v2_width c)) (int (4 * i)) \<noteq> []"
    by (auto simp: sampled_v2_count)
  from pixelValue_v2[of "imageData c" k "v2_width c" i] this assms(3) len
  have "arr_get (pixelValue (totals_v2 (imageData c) (int (4 * n)) (4 * int (v2_width c))
            (int (4 * i)))) k =
     Num (channel_average (imageData c)
        (sampled_v2 (int (4 * n)) (4 * int (v2_width c)) (int (4 * i))) k)"
    by simp
  with px[of i k] assms(2,3) show ?thesis by (simp add: res len n_def)
qed

lemma neighbours_coords:
  "neighbours w h x y =
     map (\<lambda>(x', y'). (nat x', nat y'))
       (filter (\<lambda>(x', y'). 0 \<le> x' \<and> x' < int w \<and> 0 \<le> y' \<and> y' < int h)
          [(int x - 1, int y - 1), (int x, int y - 1), (int x + 1, int y - 1),
           (int x - 1, int y), (int x + 1, int y),
           (int x - 1, int y + 1), (int x, int y + 1), (int x + 1, int y + 1)])"
  by (cases "0 < x"; cases "int x + 1 < int w"; cases "x < w";
      cases "0 < y"; cases "int y + 1 < int h"; cases "y < h")
     (auto simp: neighbours_def neighbourhood_def)

lemma v2_check_iff:
  fixes X Y W H :: int
  assumes "0 \<le> X" and "X < W"
  shows "(0 \<le> 4 * (Y * W + X) \<and> 4 * (Y * W + X) \<le> 4 * (W * H) - 3) \<longleftrightarrow> (0 \<le> Y \<and> Y < H)"
proof -
  have W: "0 \<le> W" using assms by simp
  have lo: "0 \<le> Y * W + X \<longleftrightarrow> 0 \<le> Y"
  proof (cases "0 \<le> Y")
    case True
    then have "0 \<le> Y * W" using W by simp
    then show ?thesis using True assms(1) by simp
  next
    case False
    then have "Y \<le> -1" by simp
    then have "Y * W \<le> -1 * W" using W by (rule mult_right_mono)
    then show ?thesis using False assms(2) by simp
  qed
  have hi: "Y * W + X < W * H \<longleftrightarrow> Y < H"
  proof (cases "Y < H")
    case True
    then have "Y \<le> H - 1" by simp
    then have "Y * W \<le> (H - 1) * W" using W by (rule mult_right_mono)
    then have "Y * W + X < H * W" using assms(2) by (simp add: algebra_simps)
    then show ?thesis using True by (simp add: mult.commute)
  next
    case False
    then have "H \<le> Y" by simp
    then have "H * W \<le> Y * W" using W by (rule mult_right_mono)
    then show ?thesis using False assms(1) by (simp add: mult.commute)
  qed
  have "4 * (Y * W + X) \<le> 4 * (W * H) - 3 \<longleftrightarrow> Y * W + X < W * H" by presburger
  moreover have "0 \<le> 4 * (Y * W + X) \<longleftrightarrow> 0 \<le> Y * W + X" by presburger
  ultimately show ?thesis using lo hi by blast
qed

lemma sampled_v2_neighbours:
  assumes "0 < x" and "x + 1 < w" and "y < h"
  shows "sampled_v2 (int (4 * w * h)) (4 * int w) (int (pixel_index w x y)) =
     map (\<lambda>p. int (pixel_index w (fst p) (snd p))) (neighbours w h x y)"
proof -
  define coords where "coords =
          [(int x - 1, int y - 1), (int x, int y - 1), (int x + 1, int y - 1),
           (int x - 1, int y), (int x + 1, int y),
           (int x - 1, int y + 1), (int x, int y + 1), (int x + 1, int y + 1)]"
  define f where "f = (\<lambda>(X, Y). 4 * (Y * int w + X))"
  define inb where "inb = (\<lambda>(x', y'). 0 \<le> x' \<and> x' < int w \<and> 0 \<le> y' \<and> y' < int h)"
  define chk where "chk = (\<lambda>sp. sp \<ge> 0 \<and> sp \<le> int (4 * w * h) - 3)"
  have xs: "\<forall>(X, Y) \<in> set coords. 0 \<le> X \<and> X < int w"
    using assms(1,2) by (simp add: coords_def)
  have sp: "surroundingPixels_v2 (int (pixel_index w x y)) (4 * int w) = map f coords"
    by (simp add: surroundingPixels_v2_def coords_def f_def pixel_index_def algebra_simps)
  have c: "chk (f p) = inb p" if "p \<in> set coords" for p
  proof -
    obtain X Y where p: "p = (X, Y)" by (cases p)
    with that xs have X: "0 \<le> X" "X < int w" by auto
    have "int (4 * w * h) = 4 * (int w * int h)" by simp
    with v2_check_iff[OF X, of Y "int h"] X show ?thesis
      by (simp only: chk_def f_def inb_def p prod.case) blast
  qed
  have g: "f p = int (pixel_index w (fst (case p of (x', y') \<Rightarrow> (nat x', nat y')))
                                     (snd (case p of (x', y') \<Rightarrow> (nat x', nat y'))))"
    if "inb p" for p
    using that by (cases p) (simp add: f_def inb_def pixel_index_def)
  have "sampled_v2 (int (4 * w * h)) (4 * int w) (int (pixel_index w x y))
      = filter chk (map f coords)"
    by (simp only: sampled_v2_def sp chk_def)
  also have "\<dots> = map f (filter (\<lambda>p. chk (f p)) coords)"
    by (simp add: filter_map o_def)
  also have "filter (\<lambda>p. chk (f p)) coords = filter inb coords"
    using c by (intro filter_cong) auto
  also have "map f (filter inb coords) =
      map (\<lambda>p. int (pixel_index w (fst p) (snd p)))
        (map (\<lambda>(x', y'). (nat x', nat y')) (filter inb coords))"
    using g by (simp add: o_def cong: map_cong)
  finally show ?thesis by (simp only: neighbours_coords coords_def inb_def)
qed

lemma channel_average_neighbours:
  "channel_average d (map (\<lambda>p. int (pixel_index w (fst p) (snd p))) (neighbours w h x y)) k
     = neighbour_average w h d x y k"
  by (simp add: channel_average_def neighbour_average_def o_def nat_add_distrib)

text \<open>In the leftmost and the rightmost column the index arithmetic leaves the row: on a
  3x3 image the positions sampled for the pixel \<open>(0, 1)\<close> include 8 and 20, the pixels
  \<open>(2, 0)\<close> and \<open>(2, 1)\<close> at the other end of the rows.\<close>

lemma sampled_v2_left_column:
  "sampled_v2 36 12 (int (pixel_index 3 0 1)) = [0, 4, 8, 16, 20, 24, 28]
   \<and> map (\<lambda>p. int (pixel_index 3 (fst p) (snd p))) (neighbours 3 3 0 1) = [0, 4, 16, 24, 28]"
  by (simp add: sampled_v2_def surroundingPixels_v2_def pixel_index_def neighbours_def
      neighbourhood_def)

text \<open>
  Claim C1, as stated, fails. On a 3x3 image whose centre pixel is 90 in every channel and
  whose other pixels are 0, the average over the 3x3 neighbourhood of the centre is 10.
  One pass of version 2 stores 0 there (the average of the eight surrounding pixels, the
  centre excluded); the step of version 1 for the centre stores 11 (90 / 8, rounded: the
  centre is sampled, the pixel to its right is not).
\<close>

theorem blur_is_not_box_average:
  "imageData (blur_v2 \<lparr>v2_width = 3, v2_height = 3, imageData = [0, 0, 0, 0, 0, 0, 0, 0, 0, 0, 0, 0,
            0, 0, 0, 0, 90, 90, 90, 90, 0, 0, 0, 0,
            0, 0, 0, 0, 0, 0, 0, 0, 0, 0, 0, 0], v2_canvas = []\<rparr> 1)
       ! (pixel_index 3 1 1 + 0)
     \<noteq> toUint8Clamp (Num (box_average 3 3 [0, 0, 0, 0, 0, 0, 0, 0, 0, 0, 0, 0,
            0, 0, 0, 0, 90, 90, 90, 90, 0, 0, 0, 0,
            0, 0, 0, 0, 0, 0, 0, 0, 0, 0, 0, 0] 1 1 0))
   \<and> box_average 3 3 [0, 0, 0, 0, 0, 0, 0, 0, 0, 0, 0, 0,
            0, 0, 0, 0, 90, 90, 90, 90, 0, 0, 0, 0,
            0, 0, 0, 0, 0, 0, 0, 0, 0, 0, 0, 0] 1 1 0 = 10
   \<and> imageData (blur_v2 \<lparr>v2_width = 3, v2_height = 3, imageData = [0, 0, 0, 0, 0, 0, 0, 0, 0, 0, 0, 0,
            0, 0, 0, 0, 90, 90, 90, 90, 0, 0, 0, 0,
            0, 0, 0, 0, 0, 0, 0, 0, 0, 0, 0, 0], v2_canvas = []\<rparr> 1)
       ! (pixel_index 3 1 1 + 0) = 0
   \<and> blur_pixel_v1 1
        \<lparr>original = \<lparr>width = 3, height = 3, data = [0, 0, 0, 0, 0, 0, 0, 0, 0, 0, 0, 0,
            0, 0, 0, 0, 90, 90, 90, 90, 0, 0, 0, 0,
            0, 0, 0, 0, 0, 0, 0, 0, 0, 0, 0, 0]\<rparr>,
         newImage = createImageData 3 3, aliased = False\<rparr> 1
     = Inr \<lparr>original = \<lparr>width = 3, height = 3, data = [0, 0, 0, 0, 0, 0, 0, 0, 0, 0, 0, 0,
            0, 0, 0, 0, 90, 90, 90, 90, 0, 0, 0, 0,
            0, 0, 0, 0, 0, 0, 0, 0, 0, 0, 0, 0]\<rparr>,
         newImage = \<lparr>width = 3, height = 3, data = [0, 0, 0, 0, 0, 0, 0, 0, 0, 0, 0, 0,
            0, 0, 0, 0, 11, 11, 11, 11, 0, 0, 0, 0,
            0, 0, 0, 0, 0, 0, 0, 0, 0, 0, 0, 0]\<rparr>, aliased = False\<rparr>"
proof -
  let ?c = "\<lparr>v2_width = 3, v2_height = 3, imageData = [0, 0, 0, 0, 0, 0, 0, 0, 0, 0, 0, 0,
            0, 0, 0, 0, 90, 90, 90, 90, 0, 0, 0, 0,
            0, 0, 0, 0, 0, 0, 0, 0, 0, 0, 0, 0], v2_canvas = []\<rparr>"
  have wf: "wf_canvas_image_v2 ?c" by (simp add: wf_canvas_image_v2_def)
  have "imageData (blur_v2 ?c 1) ! (4 * 4 + 0) =
     toUint8Clamp (Num (channel_average (imageData ?c)
        (sampled_v2 (int (length (imageData ?c))) (4 * int (v2_width ?c)) (int (4 * 4))) 0))"
    by (rule blur_v2_once[OF wf]) simp_all
  also have "\<dots> = 0"
    by (simp add: channel_average_def sampled_v2_def surroundingPixels_v2_def)
  finally have v2: "imageData (blur_v2 ?c 1) ! (pixel_index 3 1 1 + 0) = 0"
    by (simp add: pixel_index_def)
  have avg: "box_average 3 3 [0, 0, 0, 0, 0, 0, 0, 0, 0, 0, 0, 0,
            0, 0, 0, 0, 90, 90, 90, 90, 0, 0, 0, 0,
            0, 0, 0, 0, 0, 0, 0, 0, 0, 0, 0, 0] 1 1 0 = 10"
    by (simp add: box_average_def neighbourhood_def pixel_index_def)
  have v1: "blur_pixel_v1 1
        \<lparr>original = \<lparr>width = 3, height = 3, data = [0, 0, 0, 0, 0, 0, 0, 0, 0, 0, 0, 0,
            0, 0, 0, 0, 90, 90, 90, 90, 0, 0, 0, 0,
            0, 0, 0, 0, 0, 0, 0, 0, 0, 0, 0, 0]\<rparr>,
         newImage = createImageData 3 3, aliased = False\<rparr> 1
     = Inr \<lparr>original = \<lparr>width = 3, height = 3, data = [0, 0, 0, 0, 0, 0, 0, 0, 0, 0, 0, 0,
            0, 0, 0, 0, 90, 90, 90, 90, 0, 0, 0, 0,
            0, 0, 0, 0, 0, 0, 0, 0, 0, 0, 0, 0]\<rparr>,
         newImage = \<lparr>width = 3, height = 3, data = [0, 0, 0, 0, 0, 0, 0, 0, 0, 0, 0, 0,
            0, 0, 0, 0, 11, 11, 11, 11, 0, 0, 0, 0,
            0, 0, 0, 0, 0, 0, 0, 0, 0, 0, 0, 0]\<rparr>, aliased = False\<rparr>"
    by code_simp
  have "toUint8Clamp (Num 10) = (10 :: byte)" using toUint8Clamp_nat[of 10] by simp
  then have "toUint8Clamp (Num 10) \<noteq> 0" by simp
  with v2 avg v1 show ?thesis by simp
qed

text \<open>
  Claim C1, amended. In version 2, for every image and every pixel position \<open>(x, y)\<close>
  that is not in the leftmost or the rightmost column of the image, the first pass of
  \<open>blur\<close> replaces each channel of that pixel with the average, rounded to the nearest
  integer (ties to even) as the byte buffer stores it, of that channel's values over exactly
  those pixels of the 3x3 neighbourhood centred at \<open>(x, y)\<close>, other than the pixel
  \<open>(x, y)\<close> itself, that lie within the image bounds.
\<close>

theorem blur_v2_first_pass:
  assumes "wf_canvas_image_v2 c" and "0 < x" and "x + 1 < v2_width c" and "y < v2_height c"
    and "k < 4"
  shows "imageData (blur_v2 c 1) ! (pixel_index (v2_width c) x y + k) =
     toUint8Clamp (Num (neighbour_average (v2_width c) (v2_height c) (imageData c) x y k))"
proof -
  have x: "x < v2_width c" using assms(3) by simp
  have i: "y * v2_width c + x < v2_width c * v2_height c"
    using pixel_in_buffer[OF x assms(4)] .
  have len: "length (imageData c) = 4 * v2_width c * v2_height c"
    using assms(1) by (simp add: wf_canvas_image_v2_def)
  have "imageData (blur_v2 c 1) ! (pixel_index (v2_width c) x y + k) =
     toUint8Clamp (Num (channel_average (imageData c)
        (sampled_v2 (int (4 * v2_width c * v2_height c)) (4 * int (v2_width c))
           (int (pixel_index (v2_width c) x y))) k))"
    using blur_v2_once[OF assms(1) i assms(5)] unfolding pixel_index_def len .
  then show ?thesis
    by (simp only: sampled_v2_neighbours[OF assms(2,3,4)] channel_average_neighbours)
qed

theorem blur_v2_first_pass_witness:
  "wf_canvas_image_v2 \<lparr>v2_width = 3, v2_height = 3,
       imageData = [10, 10, 10, 10, 20, 20, 20, 20, 30, 30, 30, 30,
                    40, 40, 40, 40, 0, 0, 0, 0, 50, 50, 50, 50,
                    60, 60, 60, 60, 70, 70, 70, 70, 81, 81, 81, 81], v2_canvas = []\<rparr>
   \<and> neighbours 3 3 1 0 = [(0, 0), (2, 0), (0, 1), (1, 1), (2, 1)]
   \<and> imageData (blur_v2 \<lparr>v2_width = 3, v2_height = 3,
       imageData = [10, 10, 10, 10, 20, 20, 20, 20, 30, 30, 30, 30,
                    40, 40, 40, 40, 0, 0, 0, 0, 50, 50, 50, 50,
                    60, 60, 60, 60, 70, 70, 70, 70, 81, 81, 81, 81], v2_canvas = []\<rparr> 1)
        ! (pixel_index 3 1 0 + 0) = 26
   \<and> neighbours 3 3 1 1 = [(0, 0), (1, 0), (2, 0), (0, 1), (2, 1), (0, 2), (1, 2), (2, 2)]
   \<and> imageData (blur_v2 \<lparr>v2_width = 3, v2_height = 3,
       imageData = [10, 10, 10, 10, 20, 20, 20, 20, 30, 30, 30, 30,
                    40, 40, 40, 40, 0, 0, 0, 0, 50, 50, 50, 50,
                    60, 60, 60, 60, 70, 70, 70, 70, 81, 81, 81, 81], v2_canvas = []\<rparr> 1)
        ! (pixel_index 3 1 1 + 0) = 45"
proof -
  let ?d = "[10, 10, 10, 10, 20, 20, 20, 20, 30, 30, 30, 30,
             40, 40, 40, 40, 0, 0, 0, 0, 50, 50, 50, 50,
             60, 60, 60, 60, 70, 70, 70, 70, 81, 81, 81, 81] :: byte list"
  let ?c = "\<lparr>v2_width = 3, v2_height = 3, imageData = ?d, v2_canvas = []\<rparr>"
  have wf: "wf_canvas_image_v2 ?c" by (simp add: wf_canvas_image_v2_def)
  have n0: "neighbours 3 3 1 0 = [(0, 0), (2, 0), (0, 1), (1, 1), (2, 1)]"
    by (simp add: neighbours_def neighbourhood_def)
  have n1: "neighbours 3 3 1 1 = [(0, 0), (1, 0), (2, 0), (0, 1), (2, 1), (0, 2), (1, 2), (2, 2)]"
    by (simp add: neighbours_def neighbourhood_def)
  have a0: "neighbour_average 3 3 ?d 1 0 0 = 26"
    unfolding neighbour_average_def n0 by (simp add: pixel_index_def)
  have a1: "neighbour_average 3 3 ?d 1 1 0 = 361 / 8"
    unfolding neighbour_average_def n1 by (simp add: pixel_index_def)
  have r0: "toUint8Clamp (Num 26) = (26 :: byte)" using toUint8Clamp_nat[of 26] by simp
  have r1: "toUint8Clamp (Num (361 / 8)) = (45 :: byte)"
  proof -
    have "round_half_even (361 / 8) = 45" by code_simp
    then show ?thesis by simp
  qed
  have p: "(0::nat) < 1" "(1::nat) + 1 < v2_width ?c" "(0::nat) < v2_height ?c"
    "(1::nat) < v2_height ?c" "(0::nat) < 4"
    by simp_all
  have e0: "toUint8Clamp (Num (neighbour_average (v2_width ?c) (v2_height ?c) (imageData ?c) 1 0 0))
      = 26"
  proof -
    have "neighbour_average (v2_width ?c) (v2_height ?c) (imageData ?c) 1 0 0
        = neighbour_average 3 3 ?d 1 0 0" by simp
    then show ?thesis by (simp only: a0 r0)
  qed
  have e1: "toUint8Clamp (Num (neighbour_average (v2_width ?c) (v2_height ?c) (imageData ?c) 1 1 0))
      = 45"
  proof -
    have "neighbour_average (v2_width ?c) (v2_height ?c) (imageData ?c) 1 1 0
        = neighbour_average 3 3 ?d 1 1 0" by simp
    then show ?thesis by (simp only: a1 r1)
  qed
  have "imageData (blur_v2 ?c 1) ! (pixel_index (v2_width ?c) 1 0 + 0) = 26"
    using blur_v2_first_pass[OF wf p(1,2,3,5)] by (simp only: e0)
  then have v0: "imageData (blur_v2 ?c 1) ! (pixel_index 3 1 0 + 0) = 26" by simp
  have "imageData (blur_v2 ?c 1) ! (pixel_index (v2_width ?c) 1 1 + 0) = 45"
    using blur_v2_first_pass[OF wf p(1,2,4,5)] by (simp only: e1)
  then have v1: "imageData (blur_v2 ?c 1) ! (pixel_index 3 1 1 + 0) = 45" by simp
  from wf n0 v0 n1 v1 show ?thesis by blast
qed

end
